theory Spec2Isabelle
  imports Complex_Main "HOL-Library.Sublist"
begin

section \<open>JavaScript values used by the bot\<close>

text \<open>
  A field read from a database row is either absent (\<open>null\<close>/\<open>undefined\<close>) or a string.
  JavaScript treats the absent value and the empty string as false in a condition;
  \<open>a || b\<close> yields \<open>a\<close> when it is truthy and \<open>b\<close> otherwise.
\<close>

definition presente :: "string option \<Rightarrow> bool" where
  "presente v = (case v of None \<Rightarrow> False | Some s \<Rightarrow> s \<noteq> [])"

definition ou :: "string option \<Rightarrow> string option \<Rightarrow> string option" where
  "ou a b = (if presente a then a else b)"

definition texto_de :: "string option \<Rightarrow> string" where
  "texto_de v = (case v of None \<Rightarrow> [] | Some s \<Rightarrow> s)"

text \<open>The outcome of a Supabase call: \<open>{ data, error }\<close>.\<close>

datatype 'a resposta = Erro | Dados 'a

section \<open>Orders, couriers and the send primitive (\<open>src/index.js\<close>)\<close>

text \<open>
  The columns of an \<open>orders\<close> row that the notifier reads. \<open>created_at\<close> is the
  timestamp the store assigns; the database compares it, so it is modelled as a number.
  \<open>items\<close> is the JSONB array of the order's items: each element is an object or
  \<open>null\<close>.
\<close>

record item =
  nome_item :: string
  quantidade :: nat

record pedido =
  id_pedido :: string
  created_at :: nat
  status :: string
  order_type :: "string option"
  tipo_entrega :: "string option"
  customer_phone :: "string option"
  telefone :: "string option"
  items :: "item option list"

record entregador =
  nome :: string
  telefone_entregador :: "string option"

datatype status_conexao = Desconectado | AguardandoQr | Conectado

text \<open>
  The reconnection state of the module: \<open>sock\<close> (whether a socket object exists),
  \<open>statusConexao\<close>, \<open>contadorQrCodes\<close>, \<open>estaAutenticado\<close> and \<open>tentativasReconexao\<close>.
\<close>

record conexao =
  sock :: bool
  statusConexao :: status_conexao
  contadorQrCodes :: nat
  estaAutenticado :: bool
  tentativasReconexao :: nat

text \<open>
  The texts come from the message templates of \<open>lib/mensagens.js\<close>; of a text only
  which template produced it, and for which order, is kept.
\<close>

datatype mensagem =
    MensagemCliente pedido
  | MensagemPedidoRecebido pedido
  | MensagemEntregador pedido
  | MensagemStatusAtualizado pedido string

text \<open>
  The three templates of a new order start with \<open>formatarItensPedido\<close>, which maps over
  the items and reads the fields of each one (\<open>item.quantidade\<close>, \<open>item.nome\<close>, ...): on
  an element that is \<open>null\<close> the read throws a \<open>TypeError\<close>, and the template with it.
  \<open>gerarMensagemStatusAtualizado\<close> does not read the items and returns its text,
  \<open>MensagemStatusAtualizado\<close>, for every order.
\<close>

datatype excecao = TypeError

definition formatarItensPedido :: "pedido \<Rightarrow> excecao + unit" where
  "formatarItensPedido p = (if None \<in> set (items p) then Inl TypeError else Inr ())"

definition gerarMensagemCliente :: "pedido \<Rightarrow> excecao + mensagem" where
  "gerarMensagemCliente p =
     (case formatarItensPedido p of Inl e \<Rightarrow> Inl e | Inr listaItens \<Rightarrow> Inr (MensagemCliente p))"

definition gerarMensagemPedidoRecebido :: "pedido \<Rightarrow> excecao + mensagem" where
  "gerarMensagemPedidoRecebido p =
     (case formatarItensPedido p of
        Inl e \<Rightarrow> Inl e
      | Inr listaItens \<Rightarrow> Inr (MensagemPedidoRecebido p))"

definition gerarMensagemEntregador :: "pedido \<Rightarrow> excecao + mensagem" where
  "gerarMensagemEntregador p =
     (case formatarItensPedido p of Inl e \<Rightarrow> Inl e | Inr listaItens \<Rightarrow> Inr (MensagemEntregador p))"

text \<open>
  \<open>sock.sendMessage(jid, text)\<close> either resolves (\<open>True\<close>) or is rejected with an error
  (\<open>False\<close>), which the \<open>catch\<close> of \<open>enviarMensagem\<close> logs before it returns \<open>false\<close>;
  which of the two happens is decided by the transport, outside the program.
\<close>

type_synonym transporte = "string \<Rightarrow> mensagem \<Rightarrow> bool"

definition digito :: "char \<Rightarrow> bool" where
  "digito c = (c \<in> set ''0123456789'')"

definition comeca_com_55 :: "string \<Rightarrow> bool" where
  "comeca_com_55 s = (take 2 s = ''55'')"

definition formatarNumeroWhatsApp :: "string \<Rightarrow> string option" where
  "formatarNumeroWhatsApp tel =
     (if tel = [] then None
      else
        let numero = filter digito tel;
            numero = (if comeca_com_55 numero then numero else ''55'' @ numero);
            numero =
              (if length numero = 13 \<and> comeca_com_55 numero \<and> take 1 (drop 4 numero) = ''9''
               then ''55'' @ take 2 (drop 2 numero) @ drop 5 numero
               else numero)
        in Some (numero @ ''@s.whatsapp.net''))"

text \<open>
  One call of \<open>enviarMensagem\<close>: the telephone it was given, the text, and the boolean
  it returned.
\<close>

record envio =
  destino :: string
  texto :: mensagem
  entregue :: bool

definition enviarMensagem :: "conexao \<Rightarrow> transporte \<Rightarrow> string \<Rightarrow> mensagem \<Rightarrow> bool" where
  "enviarMensagem c tr tel m =
     (if \<not> sock c \<or> statusConexao c \<noteq> Conectado then False
      else case formatarNumeroWhatsApp tel of
             None \<Rightarrow> False
           | Some jid \<Rightarrow> tr jid m)"

definition tentativa :: "conexao \<Rightarrow> transporte \<Rightarrow> string \<Rightarrow> mensagem \<Rightarrow> envio" where
  "tentativa c tr tel m = \<lparr>destino = tel, texto = m, entregue = enviarMensagem c tr tel m\<rparr>"

text \<open>
  What a dispatch runs against: the connection, the transport, the environment variable
  \<open>NUMERO_LOJA\<close> (empty when unset) and the courier list \<open>obterEntregadores\<close> returns.
\<close>

record ambiente =
  ligacao :: conexao
  rede :: transporte
  NUMERO_LOJA :: string
  entregadores :: "entregador list"

text \<open>The \<open>for (const entregador of entregadores)\<close> loop of \<open>processarNovoPedido\<close>.\<close>

fun notificarEntregadores :: "ambiente \<Rightarrow> mensagem \<Rightarrow> entregador list \<Rightarrow> envio list" where
  "notificarEntregadores amb m [] = []"
| "notificarEntregadores amb m (e # es) =
     (if presente (telefone_entregador e)
      then [tentativa (ligacao amb) (rede amb) (texto_de (telefone_entregador e)) m]
      else [])
     @ notificarEntregadores amb m es"

definition tipo_do_pedido :: "pedido \<Rightarrow> string" where
  "tipo_do_pedido p = texto_de (ou (order_type p) (tipo_entrega p))"

text \<open>
  What a call of \<open>processarNovoPedido\<close> did: the calls of \<open>enviarMensagem\<close> it made, in
  order, and the exception it threw, if it did not return.
\<close>

record despacho =
  envios :: "envio list"
  lancou :: "excecao option"

text \<open>
  A template is called and its text sent: when the template throws, nothing is sent.
\<close>

definition enviarGerada :: "ambiente \<Rightarrow> string \<Rightarrow> excecao + mensagem \<Rightarrow> excecao + envio list" where
  "enviarGerada amb tel gerada =
     (case gerada of
        Inl e \<Rightarrow> Inl e
      | Inr m \<Rightarrow> Inr [tentativa (ligacao amb) (rede amb) tel m])"

text \<open>
  Statements one after the other, with no \<open>try\<close> around them: the first that throws
  ends the function, and what came before it has been done.
\<close>

fun em_sequencia :: "(excecao + envio list) list \<Rightarrow> despacho" where
  "em_sequencia [] = \<lparr>envios = [], lancou = None\<rparr>"
| "em_sequencia (Inl e # passos) = \<lparr>envios = [], lancou = Some e\<rparr>"
| "em_sequencia (Inr es # passos) =
     (let d = em_sequencia passos in d\<lparr>envios := es @ envios d\<rparr>)"

text \<open>
  \<open>processarNovoPedido\<close>: the customer, the store, and for a delivery the couriers. The
  function has no \<open>try\<close> of its own: a template that throws ends it with that
  exception. In the source the result of a send only decides what is logged and what
  is counted in \<open>estatisticas\<close>; the log and the counters are left out here.
\<close>

definition processarNovoPedido :: "ambiente \<Rightarrow> pedido \<Rightarrow> despacho" where
  "processarNovoPedido amb p =
     (let telefoneCliente = ou (customer_phone p) (telefone p);
          orderType = tipo_do_pedido p;
          cliente =
            (if presente telefoneCliente
             then enviarGerada amb (texto_de telefoneCliente) (gerarMensagemCliente p)
             else Inr []);
          loja =
            (if NUMERO_LOJA amb \<noteq> []
             then enviarGerada amb (NUMERO_LOJA amb) (gerarMensagemPedidoRecebido p)
             else Inr []);
          entrega =
            (if orderType = ''delivery'' \<or> orderType = ''entrega''
             then (if entregadores amb = [] then Inr []
                   else case gerarMensagemEntregador p of
                          Inl e \<Rightarrow> Inl e
                        | Inr mensagemEntregador \<Rightarrow>
                            Inr (notificarEntregadores amb mensagemEntregador (entregadores amb)))
             else Inr [])
      in em_sequencia [cliente, loja, entrega])"

definition statusNotificar :: "string list" where
  "statusNotificar =
     [''confirmed'', ''confirmado'', ''preparing'', ''preparando'', ''ready'', ''pronto'',
      ''out_for_delivery'', ''saiu_entrega'', ''delivered'', ''entregue'',
      ''completed'', ''finalizado'']"

text \<open>\<open>processarAtualizacaoStatus\<close>: the new status is the order's own \<open>status\<close> field.\<close>

definition processarAtualizacaoStatus :: "ambiente \<Rightarrow> pedido \<Rightarrow> envio list" where
  "processarAtualizacaoStatus amb p =
     (if status p \<notin> set statusNotificar then []
      else
        (if NUMERO_LOJA amb \<noteq> []
         then [tentativa (ligacao amb) (rede amb) (NUMERO_LOJA amb)
                 (MensagemStatusAtualizado p (status p))]
         else [])
        @ (let telefoneCliente = ou (customer_phone p) (telefone p) in
           if (status p = ''ready'' \<or> status p = ''pronto'') \<and> presente telefoneCliente
           then [tentativa (ligacao amb) (rede amb) (texto_de telefoneCliente)
                   (MensagemStatusAtualizado p (status p))]
           else []))"

section \<open>The order poller (\<open>src/index.js\<close>)\<close>

text \<open>
  \<open>ultimoPedidoProcessado\<close> is the cursor, \<open>pedidosProcessados\<close> the JavaScript \<open>Set\<close> of
  ids already dispatched, kept as the list of its elements in insertion order (oldest
  first, as \<open>Array.from\<close> lists them), \<open>lojaFechadaPeloAdmin\<close> the cached admin flag.
\<close>

record sondagem =
  ultimoPedidoProcessado :: nat
  pedidosProcessados :: "string list"
  lojaFechadaPeloAdmin :: bool

definition MAX_PEDIDOS_CACHE :: nat where
  "MAX_PEDIDOS_CACHE = 100"

definition LIMITE_CONSULTA :: nat where
  "LIMITE_CONSULTA = 10"

text \<open>\<open>Set.add\<close>: an element already present keeps its place.\<close>

definition adicionar :: "string \<Rightarrow> string list \<Rightarrow> string list" where
  "adicionar x xs = (if x \<in> set xs then xs else xs @ [x])"

text \<open>The eviction after \<open>add\<close>: the oldest ids beyond the cap are deleted.\<close>

definition limparExcedente :: "string list \<Rightarrow> string list" where
  "limparExcedente xs =
     (if length xs > MAX_PEDIDOS_CACHE then drop (length xs - MAX_PEDIDOS_CACHE) xs else xs)"

text \<open>
  What one tick leaves behind: the poller state, whether the query was sent to the
  store, the calls of \<open>processarNovoPedido\<close> with what each one did, and the exception
  that reached the \<open>catch\<close> of the tick, if one did.
\<close>

record tique =
  estado :: sondagem
  consultou :: bool
  despachos :: "(pedido \<times> despacho) list"
  capturado :: "excecao option"

text \<open>
  The body of the \<open>for (const pedido of novosPedidos)\<close> loop. The loop is inside the
  \<open>try\<close> of the tick: when \<open>processarNovoPedido\<close> throws, the statements after the call
  are not run, so the id is not inserted and the cursor is not moved.
\<close>

definition processarPedido :: "ambiente \<Rightarrow> pedido \<Rightarrow> tique \<Rightarrow> tique" where
  "processarPedido amb p t =
     (let st = estado t in
      if id_pedido p \<in> set (pedidosProcessados st)
      then t\<lparr>estado := st\<lparr>ultimoPedidoProcessado := created_at p\<rparr>\<rparr>
      else
        let d = processarNovoPedido amb p in
        case lancou d of
          Some e \<Rightarrow> t\<lparr>despachos := despachos t @ [(p, d)], capturado := Some e\<rparr>
        | None \<Rightarrow>
            t\<lparr>estado := st\<lparr>pedidosProcessados :=
                              limparExcedente (adicionar (id_pedido p) (pedidosProcessados st)),
                            ultimoPedidoProcessado := created_at p\<rparr>,
              despachos := despachos t @ [(p, d)]\<rparr>)"

text \<open>The loop: an exception ends it, and the orders after that one are not reached.\<close>

fun processarLote :: "ambiente \<Rightarrow> pedido list \<Rightarrow> tique \<Rightarrow> tique" where
  "processarLote amb [] t = t"
| "processarLote amb (p # ps) t =
     (let t' = processarPedido amb p t
      in if capturado t' \<noteq> None then t' else processarLote amb ps t')"

text \<open>
  \<open>verificarNovosPedidos\<close>, as one call that runs from the timer to its end with no
  other call of the poller in between; the section on the event loop takes a call apart
  at its \<open>await\<close>s. The store is a function from the cursor sent in the query
  (\<open>.gt('created_at', ultimoPedidoProcessado)\<close>) to the response; a response with no
  rows, or with \<open>data\<close> null, is the empty list.
\<close>

definition verificarNovosPedidos :: "ambiente \<Rightarrow> (nat \<Rightarrow> pedido list resposta) \<Rightarrow> sondagem \<Rightarrow> tique" where
  "verificarNovosPedidos amb consulta st =
     (if lojaFechadaPeloAdmin st
      then \<lparr>estado = st, consultou = False, despachos = [], capturado = None\<rparr>
      else case consulta (ultimoPedidoProcessado st) of
             Erro \<Rightarrow> \<lparr>estado = st, consultou = True, despachos = [], capturado = None\<rparr>
           | Dados novosPedidos \<Rightarrow>
               processarLote amb novosPedidos
                 \<lparr>estado = st, consultou = True, despachos = [], capturado = None\<rparr>)"

text \<open>
  What the store answers to the query of the tick when it holds the rows \<open>tabela\<close>:
  the rows created after the cursor, ascending by \<open>created_at\<close>, at most ten
  (\<open>.gt('created_at', ...).order('created_at', { ascending: true }).limit(10)\<close>).
\<close>

definition novosPedidosDe :: "pedido list \<Rightarrow> nat \<Rightarrow> pedido list" where
  "novosPedidosDe tabela cursor =
     take LIMITE_CONSULTA (sort_key created_at (filter (\<lambda>p. cursor < created_at p) tabela))"

definition consultarPedidos :: "pedido list \<Rightarrow> nat \<Rightarrow> pedido list resposta" where
  "consultarPedidos tabela cursor = Dados (novosPedidosDe tabela cursor)"

text \<open>A store that answers every query with the same rows, whatever the cursor.\<close>

definition mesma_consulta :: "pedido list \<Rightarrow> nat \<Rightarrow> pedido list resposta" where
  "mesma_consulta lote cursor = Dados lote"

text \<open>
  \<open>verificarStatusLoja\<close>: the response carries the \<open>setting_value\<close> of the
  \<open>manual_status\<close> row; on an error the cached flag is kept.
\<close>

definition verificarStatusLoja :: "string option resposta \<Rightarrow> sondagem \<Rightarrow> sondagem" where
  "verificarStatusLoja r st =
     (case r of
        Erro \<Rightarrow> st
      | Dados v \<Rightarrow>
          (let novoStatus = (v = Some ''closed'') in
           if novoStatus \<noteq> lojaFechadaPeloAdmin st then st\<lparr>lojaFechadaPeloAdmin := novoStatus\<rparr>
           else st))"

text \<open>
  The two timers of \<open>configurarPollingPedidos\<close>: a tick of the poller, against the rows
  the store holds at that moment (\<open>None\<close> when the query fails), and a read of the
  admin flag.
\<close>

datatype evento = Tique "pedido list option" | StatusLoja "string option resposta"

definition aplicar :: "ambiente \<Rightarrow> evento \<Rightarrow> sondagem \<Rightarrow> sondagem" where
  "aplicar amb ev st =
     (case ev of
        Tique None \<Rightarrow> estado (verificarNovosPedidos amb (\<lambda>cursor. Erro) st)
      | Tique (Some tabela) \<Rightarrow> estado (verificarNovosPedidos amb (consultarPedidos tabela) st)
      | StatusLoja r \<Rightarrow> verificarStatusLoja r st)"

text \<open>The cursor before the first event and after each event of a run.\<close>

fun cursores :: "ambiente \<Rightarrow> evento list \<Rightarrow> sondagem \<Rightarrow> nat list" where
  "cursores amb [] st = [ultimoPedidoProcessado st]"
| "cursores amb (ev # evs) st = ultimoPedidoProcessado st # cursores amb evs (aplicar amb ev st)"


text \<open>The id \<open>x\<close> is among the \<open>m\<close> most recently inserted ids.\<close>

definition recente :: "nat \<Rightarrow> string \<Rightarrow> string list \<Rightarrow> bool" where
  "recente m x xs = (x \<in> set (drop (length xs - m) xs))"

section \<open>Ticks of the poller in the event loop (\<open>src/index.js\<close>)\<close>

text \<open>
  \<open>setInterval(verificarNovosPedidos, INTERVALO_POLLING_MS)\<close> calls the asynchronous
  function at every period, whether or not an earlier call has returned. A call runs
  until its next \<open>await\<close> and is resumed when the awaited operation settles; between
  the two the event loop runs whatever else is due. A call is therefore a sequence of
  uninterrupted pieces: from the timer to the query, from the answer of the store to the
  first call of \<open>processarNovoPedido\<close>, and from each return of \<open>processarNovoPedido\<close>
  to the next call or to the end of the loop. When \<open>processarNovoPedido\<close> throws, the
  call is resumed in its \<open>catch\<close> and ends there.

  \<open>fase\<close> is where a call is suspended: on the query (with the cursor it sent), on the
  dispatch of an order (with the orders of the batch still to come), or finished.
\<close>

datatype fase = AguardaConsulta nat | AguardaDespacho pedido "pedido list" | Terminado

text \<open>
  What a run leaves in its record, each entry with the number of the call it belongs to:
  the batch received, a call of \<open>processarNovoPedido\<close>, and the end of that call, by a
  return or by an exception, with what it did.
\<close>

datatype marca = Recebe nat "pedido list" | Chama nat pedido | Conclui nat pedido despacho

record execucao =
  sonda :: sondagem
  em_voo :: "fase list"
  registro :: "marca list"

text \<open>
  What the event loop runs next: the interval timer, the answer of the store to the
  query of call \<open>i\<close>, or the end of the dispatch that call \<open>i\<close> awaits.
\<close>

datatype acontecimento =
  Temporizador | RespostaConsulta nat "pedido list resposta" | FimDespacho nat

text \<open>
  The \<open>for\<close> loop of call \<open>i\<close> over the orders still to come, up to its next \<open>await\<close>:
  processed ids only move the cursor; the first other order is handed to
  \<open>processarNovoPedido\<close> and the call is suspended.
\<close>

fun retomar :: "nat \<Rightarrow> pedido list \<Rightarrow> execucao \<Rightarrow> execucao" where
  "retomar i [] ex = ex\<lparr>em_voo := (em_voo ex)[i := Terminado]\<rparr>"
| "retomar i (p # ps) ex =
     (if id_pedido p \<in> set (pedidosProcessados (sonda ex))
      then retomar i ps (ex\<lparr>sonda := (sonda ex)\<lparr>ultimoPedidoProcessado := created_at p\<rparr>\<rparr>)
      else ex\<lparr>em_voo := (em_voo ex)[i := AguardaDespacho p ps],
              registro := registro ex @ [Chama i p]\<rparr>)"

text \<open>
  One piece of \<open>verificarNovosPedidos\<close>. The timer starts a new call unless the admin
  flag is set; nothing in the function looks at the calls in flight. The return of a
  dispatch inserts the id, evicts beyond the cap and moves the cursor, then goes on with
  the loop; a dispatch that throws ends the call with the poller state as it is. An
  event for a call that is not waiting for it changes nothing.
\<close>

definition passo :: "ambiente \<Rightarrow> acontecimento \<Rightarrow> execucao \<Rightarrow> execucao" where
  "passo amb ev ex =
     (case ev of
        Temporizador \<Rightarrow>
          if lojaFechadaPeloAdmin (sonda ex) then ex
          else ex\<lparr>em_voo := em_voo ex @ [AguardaConsulta (ultimoPedidoProcessado (sonda ex))]\<rparr>
      | RespostaConsulta i r \<Rightarrow>
          if i < length (em_voo ex) then
            (case em_voo ex ! i of
               AguardaConsulta c \<Rightarrow>
                 (case r of
                    Erro \<Rightarrow> ex\<lparr>em_voo := (em_voo ex)[i := Terminado]\<rparr>
                  | Dados novosPedidos \<Rightarrow>
                      retomar i novosPedidos
                        (ex\<lparr>registro := registro ex @ [Recebe i novosPedidos]\<rparr>))
             | _ \<Rightarrow> ex)
          else ex
      | FimDespacho i \<Rightarrow>
          if i < length (em_voo ex) then
            (case em_voo ex ! i of
               AguardaDespacho p ps \<Rightarrow>
                 (let d = processarNovoPedido amb p in
                  case lancou d of
                    Some e \<Rightarrow>
                      ex\<lparr>em_voo := (em_voo ex)[i := Terminado],
                         registro := registro ex @ [Conclui i p d]\<rparr>
                  | None \<Rightarrow>
                      retomar i ps
                        (ex\<lparr>sonda := (sonda ex)
                               \<lparr>pedidosProcessados :=
                                  limparExcedente
                                    (adicionar (id_pedido p) (pedidosProcessados (sonda ex))),
                                ultimoPedidoProcessado := created_at p\<rparr>,
                             registro := registro ex @ [Conclui i p d]\<rparr>))
             | _ \<Rightarrow> ex)
          else ex)"

fun executar :: "ambiente \<Rightarrow> acontecimento list \<Rightarrow> execucao \<Rightarrow> execucao" where
  "executar amb [] ex = ex"
| "executar amb (ev # evs) ex = executar amb evs (passo amb ev ex)"

definition execucao_inicial :: "sondagem \<Rightarrow> execucao" where
  "execucao_inicial st = \<lparr>sonda = st, em_voo = [], registro = []\<rparr>"

text \<open>The entries of the record that belong to call \<open>i\<close>, and the orders dispatched.\<close>

fun dono :: "marca \<Rightarrow> nat" where
  "dono (Recebe i lote) = i"
| "dono (Chama i p) = i"
| "dono (Conclui i p es) = i"

definition do_tique :: "nat \<Rightarrow> marca list \<Rightarrow> marca list" where
  "do_tique i ms = filter (\<lambda>m. dono m = i) ms"

fun chamados :: "marca list \<Rightarrow> pedido list" where
  "chamados [] = []"
| "chamados (Chama i p # ms) = p # chamados ms"
| "chamados (m # ms) = chamados ms"

text \<open>
  Calls of \<open>processarNovoPedido\<close> and their ends alternate, each end for the order just
  called; the record of one call is empty or starts with the batch it received.
\<close>

fun alternado :: "marca list \<Rightarrow> bool" where
  "alternado [] = True"
| "alternado [Chama i p] = True"
| "alternado (Chama i p # Conclui j q es # ms) = (i = j \<and> p = q \<and> alternado ms)"
| "alternado ms = False"

fun sequencial :: "marca list \<Rightarrow> bool" where
  "sequencial [] = True"
| "sequencial (Recebe i lote # ms) = alternado ms"
| "sequencial ms = False"

text \<open>The invariant of a run: the record of each call agrees with its phase.\<close>

definition pares :: "ambiente \<Rightarrow> nat \<Rightarrow> pedido list \<Rightarrow> marca list" where
  "pares amb i qs = concat (map (\<lambda>q. [Chama i q, Conclui i q (processarNovoPedido amb q)]) qs)"

definition coerente :: "ambiente \<Rightarrow> nat \<Rightarrow> fase \<Rightarrow> marca list \<Rightarrow> bool" where
  "coerente amb i f ms =
     (case f of
        AguardaConsulta c \<Rightarrow> ms = []
      | AguardaDespacho p ps \<Rightarrow>
          (\<exists>lote qs. ms = Recebe i lote # pares amb i qs @ [Chama i p] \<and> subseq (qs @ p # ps) lote)
      | Terminado \<Rightarrow>
          ms = [] \<or> (\<exists>lote qs. ms = Recebe i lote # pares amb i qs \<and> subseq qs lote))"

definition invariante :: "ambiente \<Rightarrow> execucao \<Rightarrow> bool" where
  "invariante amb ex =
     (\<forall>i. if i < length (em_voo ex) then coerente amb i (em_voo ex ! i) (do_tique i (registro ex))
          else do_tique i (registro ex) = [])"

text \<open>The tick record \<open>verificarNovosPedidos\<close> starts from once the query was sent.\<close>

definition novo_tique :: "sondagem \<Rightarrow> tique" where
  "novo_tique st = \<lparr>estado = st, consultou = True, despachos = [], capturado = None\<rparr>"

section \<open>Business hours (\<open>src/lib/respostasAutomaticas.js\<close>)\<close>

datatype dia_semana = Domingo | Segunda | Terca | Quarta | Quinta | Sexta | Sabado

text \<open>\<open>estaNoHorario\<close>, from the weekday and the minutes since midnight in Fortaleza.\<close>

definition estaNoHorario :: "dia_semana \<Rightarrow> nat \<Rightarrow> bool" where
  "estaNoHorario diaSemana totalMinutos =
     (if diaSemana = Domingo then False
      else if diaSemana = Sexta \<or> diaSemana = Sabado then totalMinutos \<ge> 17 * 60
      else totalMinutos \<ge> 17 * 60 \<and> totalMinutos < 23 * 60)"

text \<open>
  \<open>verificarLojaAbertaSupabase\<close>: the manual override \<open>manual_status\<close> of the loaded
  configuration, with the schedule as fallback.
\<close>

definition verificarLojaAbertaSupabase :: "string option \<Rightarrow> dia_semana \<Rightarrow> nat \<Rightarrow> bool" where
  "verificarLojaAbertaSupabase manual_status diaSemana totalMinutos =
     (if manual_status = Some ''closed'' then False
      else if manual_status = Some ''open'' then True
      else estaNoHorario diaSemana totalMinutos)"

section \<open>The connection handler (\<open>src/index.js\<close>)\<close>

text \<open>
  The \<open>statusCode\<close> of a closed connection, as the cases of Baileys' \<open>DisconnectReason\<close>
  that the handler names; every other code is \<open>OutroMotivo\<close>, and \<open>None\<close> is a close
  without a status code.
\<close>

datatype motivo_desconexao =
  LoggedOut | ConnectionClosed | ConnectionLost | ConnectionReplaced | TimedOut
  | RestartRequired | OutroMotivo

definition MAX_TENTATIVAS_RECONEXAO :: nat where
  "MAX_TENTATIVAS_RECONEXAO = 5"

definition DELAY_BASE_RECONEXAO_MS :: rat where
  "DELAY_BASE_RECONEXAO_MS = 3000"

text \<open>\<open>Math.pow(2, e)\<close> for an integer \<open>e\<close>, which may be negative.\<close>

definition potencia_de_2 :: "int \<Rightarrow> rat" where
  "potencia_de_2 e = (if 0 \<le> e then 2 ^ nat e else 1 / 2 ^ nat (- e))"

text \<open>
  What the handler does on \<open>connection === 'close'\<close>: the counters it leaves, whether
  \<open>limparSessao\<close> was called, and the delay in milliseconds of the
  \<open>setTimeout(iniciarConexaoWhatsApp, ...)\<close> it scheduled, if any.
\<close>

record reacao =
  conexao_depois :: conexao
  sessao_limpa :: bool
  reinicio_em :: "rat option"

definition aoFecharConexao :: "bool \<Rightarrow> motivo_desconexao option \<Rightarrow> conexao \<Rightarrow> reacao" where
  "aoFecharConexao USAR_SUPABASE_AUTH statusCode c =
     (let eConexaoInicial = (\<not> estaAutenticado c \<and> contadorQrCodes c = 0);
          foiLogout = (statusCode = Some LoggedOut);
          foiDesconexaoTemporaria =
            (statusCode = Some ConnectionClosed \<or> statusCode = Some ConnectionLost \<or>
             statusCode = Some ConnectionReplaced \<or> statusCode = Some TimedOut \<or>
             statusCode = Some RestartRequired);
          c = c\<lparr>statusConexao := Desconectado\<rparr>
      in if eConexaoInicial then
           \<lparr>conexao_depois = c, sessao_limpa = False, reinicio_em = None\<rparr>
         else if foiLogout then
           \<lparr>conexao_depois = c\<lparr>estaAutenticado := False, contadorQrCodes := 0,
                                 tentativasReconexao := 0\<rparr>,
            sessao_limpa = USAR_SUPABASE_AUTH, reinicio_em = Some 2000\<rparr>
         else if estaAutenticado c \<or> foiDesconexaoTemporaria then
           (let c = c\<lparr>tentativasReconexao := tentativasReconexao c + 1\<rparr>;
                c = (if tentativasReconexao c > MAX_TENTATIVAS_RECONEXAO
                     then c\<lparr>tentativasReconexao := 0, contadorQrCodes := 0\<rparr>
                     else c);
                delayReconexao =
                  DELAY_BASE_RECONEXAO_MS * potencia_de_2 (int (tentativasReconexao c) - 1)
            in \<lparr>conexao_depois = c, sessao_limpa = False, reinicio_em = Some delayReconexao\<rparr>)
         else if contadorQrCodes c > 0 then
           \<lparr>conexao_depois = c, sessao_limpa = False, reinicio_em = None\<rparr>
         else
           \<lparr>conexao_depois = c, sessao_limpa = False, reinicio_em = Some 5000\<rparr>)"

text \<open>The other two branches of the handler: a QR code was issued, the connection opened.\<close>

definition aoGerarQr :: "conexao \<Rightarrow> conexao" where
  "aoGerarQr c = c\<lparr>contadorQrCodes := contadorQrCodes c + 1, statusConexao := AguardandoQr\<rparr>"

definition aoAbrirConexao :: "conexao \<Rightarrow> conexao" where
  "aoAbrirConexao c =
     c\<lparr>statusConexao := Conectado, estaAutenticado := True, tentativasReconexao := 0\<rparr>"

text \<open>
  The close falls in the reconnection branch: it is not the initial handshake, not a
  logout, and the session was authenticated or the cause is a temporary one.
\<close>

definition ramo_reconexao :: "motivo_desconexao option \<Rightarrow> conexao \<Rightarrow> bool" where
  "ramo_reconexao statusCode c =
     ((estaAutenticado c \<or> contadorQrCodes c \<noteq> 0) \<and> statusCode \<noteq> Some LoggedOut \<and>
      (estaAutenticado c \<or> statusCode \<in> {Some ConnectionClosed, Some ConnectionLost,
         Some ConnectionReplaced, Some TimedOut, Some RestartRequired}))"

section \<open>The PIX key selector (\<open>lib/pix.js\<close>)\<close>

record chave_pix =
  tipo :: string
  chave :: string
  titular :: string

definition CHAVES_PIX :: "chave_pix list" where
  "CHAVES_PIX =
     [\<lparr>tipo = ''Aleat'' @ [CHR 0xC3, CHR 0xB3] @ ''ria'',
       chave = ''74849085-bf79-49ce-9897-95ccee2a3004'', titular = ''Rei do Churrasco''\<rparr>,
      \<lparr>tipo = ''E-mail'', chave = ''Marcos.f.alves1984@gmail.com'',
       titular = ''Rei do Churrasco''\<rparr>]"

text \<open>
  \<open>ultimoEnvioPorNumero\<close> is a JavaScript \<open>Map\<close> from the normalised number to
  \<open>{ indice, timestamp }\<close>, kept as its entries in insertion order; \<open>usoPorIndice\<close> maps
  each key index to the number of times it was selected. Times are \<open>Date.now()\<close>
  values, in milliseconds.
\<close>

record ultimo_envio =
  indice :: nat
  timestamp :: int

record estado_pix =
  ultimoEnvioPorNumero :: "(string \<times> ultimo_envio) list"
  usoPorIndice :: "nat \<rightharpoonup> nat"

definition INTERVALO_BLOQUEIO_REPETICAO_MS :: int where
  "INTERVALO_BLOQUEIO_REPETICAO_MS = 6 * 60 * 60 * 1000"

definition RETENCAO_HISTORICO_MS :: int where
  "RETENCAO_HISTORICO_MS = 24 * 60 * 60 * 1000"

definition LIMITE_HISTORICO :: nat where
  "LIMITE_HISTORICO = 2000"

definition UMA_HORA :: int where
  "UMA_HORA = 60 * 60 * 1000"

text \<open>The state of the module when it is loaded.\<close>

definition estado_pix_inicial :: estado_pix where
  "estado_pix_inicial =
     \<lparr>ultimoEnvioPorNumero = [],
      usoPorIndice = map_of (map (\<lambda>i. (i, 0)) [0..<length CHAVES_PIX])\<rparr>"

definition normalizarNumero :: "string \<Rightarrow> string" where
  "normalizarNumero numero = filter digito numero"

text \<open>\<open>Map.set\<close>: an existing key keeps its place, a new one goes last.\<close>

fun definir :: "'k \<Rightarrow> 'v \<Rightarrow> ('k \<times> 'v) list \<Rightarrow> ('k \<times> 'v) list" where
  "definir k v [] = [(k, v)]"
| "definir k v (e # es) = (if fst e = k then (k, v) # es else e # definir k v es)"

text \<open>
  \<open>limparHistoricoAntigo\<close>, in its two steps. First the entries with no timestamp or
  older than the retention window are deleted. Then, if more than \<open>LIMITE_HISTORICO\<close>
  remain, the oldest by timestamp (a stable sort) are deleted until the limit is met.
\<close>

definition entradaViva :: "int \<Rightarrow> string \<times> ultimo_envio \<Rightarrow> bool" where
  "entradaViva agora e =
     (\<not> (timestamp (snd e) = 0 \<or> agora - timestamp (snd e) > RETENCAO_HISTORICO_MS))"

definition removerExcedente :: "(string \<times> ultimo_envio) list \<Rightarrow> (string \<times> ultimo_envio) list" where
  "removerExcedente h =
     (if length h \<le> LIMITE_HISTORICO then h
      else
        let entradasOrdenadas = sort_key (\<lambda>e. timestamp (snd e)) h;
            excedente = length h - LIMITE_HISTORICO;
            removidos = map fst (take excedente entradasOrdenadas)
        in filter (\<lambda>e. fst e \<notin> set removidos) h)"

definition limparHistoricoAntigo ::
  "int \<Rightarrow> (string \<times> ultimo_envio) list \<Rightarrow> (string \<times> ultimo_envio) list" where
  "limparHistoricoAntigo agora h = removerExcedente (filter (entradaViva agora) h)"

text \<open>\<open>usoPorIndice.get(indice) || 0\<close>.\<close>

definition uso :: "estado_pix \<Rightarrow> nat \<Rightarrow> nat" where
  "uso st i = (case usoPorIndice st i of None \<Rightarrow> 0 | Some n \<Rightarrow> n)"

definition todosIndices :: "nat list" where
  "todosIndices = [0..<length CHAVES_PIX]"

text \<open>
  The candidate indices: all of them, less the index last sent to this number when
  that was within the block window; all of them again should none be left.
\<close>

definition indicesCandidatos :: "int \<Rightarrow> ultimo_envio option \<Rightarrow> nat list" where
  "indicesCandidatos agora ultimoEnvio =
     (let candidatos =
            (case ultimoEnvio of
               None \<Rightarrow> todosIndices
             | Some u \<Rightarrow>
                 if length CHAVES_PIX > 1 \<and>
                    agora - timestamp u < INTERVALO_BLOQUEIO_REPETICAO_MS
                 then filter (\<lambda>i. i \<noteq> indice u) todosIndices
                 else todosIndices)
      in if candidatos = [] then todosIndices else candidatos)"

text \<open>The candidates with the least use; the candidate list is never empty.\<close>

definition grupoSorteio :: "estado_pix \<Rightarrow> nat list \<Rightarrow> nat list" where
  "grupoSorteio st candidatos =
     (let menorUso = Min (set (map (uso st) candidatos));
          indicesBalanceados = filter (\<lambda>i. uso st i = menorUso) candidatos
      in if indicesBalanceados \<noteq> [] then indicesBalanceados else candidatos)"

text \<open>
  \<open>grupo[Math.floor(Math.random() * grupo.length)]\<close>, where \<open>r\<close> is the value of
  \<open>Math.random()\<close>, a number with \<open>0 \<le> r < 1\<close>.
\<close>

definition sortear :: "rat \<Rightarrow> nat list \<Rightarrow> nat" where
  "sortear r grupo = grupo ! nat \<lfloor>r * of_nat (length grupo)\<rfloor>"

text \<open>
  \<open>selecionarChavePixInteligente\<close>: the value returned, the index drawn and the state
  of the module after the call. The call reads the clock twice, in
  \<open>limparHistoricoAntigo\<close> and for the block window; both reads are the instant \<open>agora\<close>.
\<close>

record selecao =
  indiceSorteado :: nat
  chaveSelecionada :: chave_pix
  depois :: estado_pix

definition selecionarChavePixInteligente :: "string \<Rightarrow> int \<Rightarrow> rat \<Rightarrow> estado_pix \<Rightarrow> selecao" where
  "selecionarChavePixInteligente numeroRemetente agora r st =
     (let historico = limparHistoricoAntigo agora (ultimoEnvioPorNumero st);
          numeroNormalizado = normalizarNumero numeroRemetente;
          ultimoEnvio =
            (if numeroNormalizado \<noteq> [] then map_of historico numeroNormalizado else None);
          i = sortear r (grupoSorteio st (indicesCandidatos agora ultimoEnvio))
      in \<lparr>indiceSorteado = i,
          chaveSelecionada = CHAVES_PIX ! i,
          depois = \<lparr>ultimoEnvioPorNumero =
                      (if numeroNormalizado \<noteq> []
                       then definir numeroNormalizado \<lparr>indice = i, timestamp = agora\<rparr> historico
                       else historico),
                    usoPorIndice = (usoPorIndice st)(i \<mapsto> uso st i + 1)\<rparr>\<rparr>)"

text \<open>A run of selections: who asked, when, and what \<open>Math.random()\<close> returned.\<close>

record chamada =
  remetente :: string
  instante :: int
  sorteio :: rat

fun selecoes :: "chamada list \<Rightarrow> estado_pix \<Rightarrow> estado_pix" where
  "selecoes [] st = st"
| "selecoes (c # cs) st =
     selecoes cs (depois (selecionarChavePixInteligente (remetente c) (instante c) (sorteio c) st))"

text \<open>
  A history as the selector keeps it up to time \<open>T\<close>: one entry per number, as in a
  \<open>Map\<close>, and no timestamp later than \<open>T\<close>.
\<close>

definition historico_valido :: "int \<Rightarrow> (string \<times> ultimo_envio) list \<Rightarrow> bool" where
  "historico_valido T h = (distinct (map fst h) \<and> (\<forall>e \<in> set h. timestamp (snd e) \<le> T))"

text \<open>
  The entries of numbers other than \<open>n\<close> that are not older than \<open>T\<close>: the ones the cap
  deletes after an entry of \<open>n\<close> set at \<open>T\<close>.
\<close>

definition posteriores :: "string \<Rightarrow> int \<Rightarrow> (string \<times> ultimo_envio) list \<Rightarrow> (string \<times> ultimo_envio) list" where
  "posteriores n T h = filter (\<lambda>e. fst e \<noteq> n \<and> T \<le> timestamp (snd e)) h"

section \<open>Automatic replies (\<open>src/lib/respostasAutomaticas.js\<close>)\<close>

text \<open>
  The intents \<open>detectarIntencao\<close> can return. The keyword matching itself is a
  parameter of the model: any function from the text to an intent or nothing.
\<close>

datatype intencao =
  Saudacao | Pix | Horario | Pedido | Entrega | Churrasco | Marmita | Localizacao

text \<open>A reply: the text generated for an intent, or the PIX reply with the key chosen.\<close>

datatype resposta_automatica = RespostaTexto intencao | RespostaPix chave_pix

text \<open>
  \<open>ultimasRespostas\<close> is the anti-spam \<open>Map\<close> from the sender to the time of the last
  reply; the state of the key selector is carried along for the PIX reply.
\<close>

record estado_respostas =
  ultimasRespostas :: "(string \<times> int) list"
  chavesPix :: estado_pix

definition INTERVALO_MINIMO_RESPOSTA_MS :: int where
  "INTERVALO_MINIMO_RESPOSTA_MS = 2 * 60 * 1000"

definition podeResponder :: "string \<Rightarrow> int \<Rightarrow> (string \<times> int) list \<Rightarrow> bool" where
  "podeResponder numeroRemetente agora m =
     (case map_of m numeroRemetente of
        None \<Rightarrow> True
      | Some ultimaResposta \<Rightarrow>
          \<not> (ultimaResposta \<noteq> 0 \<and> agora - ultimaResposta < INTERVALO_MINIMO_RESPOSTA_MS))"

definition registrarResposta :: "string \<Rightarrow> int \<Rightarrow> (string \<times> int) list \<Rightarrow> (string \<times> int) list" where
  "registrarResposta numeroRemetente agora m =
     filter (\<lambda>e. \<not> (agora - snd e > 60 * 60 * 1000)) (definir numeroRemetente agora m)"

definition processarMensagemRecebida ::
  "(string \<Rightarrow> intencao option) \<Rightarrow> string \<Rightarrow> string \<Rightarrow> int \<Rightarrow> rat \<Rightarrow> estado_respostas
     \<Rightarrow> resposta_automatica option \<times> estado_respostas" where
  "processarMensagemRecebida detectarIntencao mensagem numeroRemetente agora r st =
     (case detectarIntencao mensagem of
        None \<Rightarrow> (None, st)
      | Some intencao \<Rightarrow>
          if intencao \<noteq> Pix \<and> \<not> podeResponder numeroRemetente agora (ultimasRespostas st)
          then (None, st)
          else
            (let st = st\<lparr>ultimasRespostas :=
                          registrarResposta numeroRemetente agora (ultimasRespostas st)\<rparr>
             in case intencao of
                  Pix \<Rightarrow>
                    (let s = selecionarChavePixInteligente numeroRemetente agora r (chavesPix st)
                     in (Some (RespostaPix (chaveSelecionada s)), st\<lparr>chavesPix := depois s\<rparr>))
                | _ \<Rightarrow> (Some (RespostaTexto intencao), st)))"

definition estado_respostas_inicial :: estado_respostas where
  "estado_respostas_inicial = \<lparr>ultimasRespostas = [], chavesPix = estado_pix_inicial\<rparr>"

text \<open>
  A run of incoming messages, each with its text, its sender, the clock when it is
  processed and what \<open>Math.random()\<close> returns should a PIX key be chosen for it.
\<close>

record recebida =
  corpo :: string
  origem :: string
  hora :: int
  acaso :: rat

fun processarMensagens ::
  "(string \<Rightarrow> intencao option) \<Rightarrow> recebida list \<Rightarrow> estado_respostas \<Rightarrow> estado_respostas" where
  "processarMensagens detectarIntencao [] st = st"
| "processarMensagens detectarIntencao (m # ms) st =
     processarMensagens detectarIntencao ms
       (snd (processarMensagemRecebida detectarIntencao (corpo m) (origem m) (hora m) (acaso m) st))"

section \<open>Concrete inputs\<close>

definition exemplo_ligacao :: conexao where
  "exemplo_ligacao = \<lparr>sock = True, statusConexao = Conectado, contadorQrCodes = 0,
     estaAutenticado = True, tentativasReconexao = 0\<rparr>"

definition exemplo_ambiente :: ambiente where
  "exemplo_ambiente = \<lparr>ligacao = exemplo_ligacao, rede = (\<lambda>jid m. True),
     NUMERO_LOJA = ''5586981319596'',
     entregadores = [\<lparr>nome = ''Ana'', telefone_entregador = Some ''86911112222''\<rparr>,
                     \<lparr>nome = ''Bia'', telefone_entregador = None\<rparr>,
                     \<lparr>nome = ''Caio'', telefone_entregador = Some ''86933334444''\<rparr>]\<rparr>"

definition exemplo_pedido :: pedido where
  "exemplo_pedido = \<lparr>id_pedido = ''a1'', created_at = 5, status = ''ready'',
     order_type = Some ''delivery'', tipo_entrega = None,
     customer_phone = Some ''86999990000'', telefone = None,
     items = [Some \<lparr>nome_item = ''Picanha'', quantidade = 2\<rparr>]\<rparr>"

definition sondagem_inicial :: sondagem where
  "sondagem_inicial =
     \<lparr>ultimoPedidoProcessado = 0, pedidosProcessados = [], lojaFechadaPeloAdmin = False\<rparr>"

definition exemplo_retirada :: pedido where
  "exemplo_retirada = \<lparr>id_pedido = ''b2'', created_at = 9, status = ''pending'',
     order_type = Some ''pickup'', tipo_entrega = None,
     customer_phone = None, telefone = None,
     items = [Some \<lparr>nome_item = ''Marmita'', quantidade = 1\<rparr>]\<rparr>"

text \<open>The same environment with \<open>NUMERO_LOJA\<close> unset.\<close>

definition ambiente_sem_loja :: ambiente where
  "ambiente_sem_loja = exemplo_ambiente\<lparr>NUMERO_LOJA := []\<rparr>"

definition exemplo_sem_telefone :: pedido where
  "exemplo_sem_telefone = exemplo_pedido\<lparr>customer_phone := None\<rparr>"

text \<open>The same order with a \<open>null\<close> among its items.\<close>

definition exemplo_item_nulo :: pedido where
  "exemplo_item_nulo =
     exemplo_pedido\<lparr>items := [Some \<lparr>nome_item = ''Picanha'', quantidade = 2\<rparr>, None]\<rparr>"



text \<open>A connection that was authenticated, with \<open>n\<close> reconnection attempts so far.\<close>

definition ligacao_com_tentativas :: "nat \<Rightarrow> conexao" where
  "ligacao_com_tentativas n = exemplo_ligacao\<lparr>tentativasReconexao := n\<rparr>"

definition numero_exemplo :: string where
  "numero_exemplo = ''5586999990000''"

text \<open>An earlier selection by another requester, which got the second key.\<close>

definition chamadas_anteriores :: "chamada list" where
  "chamadas_anteriores = [\<lparr>remetente = ''5586911112222'', instante = 500, sorteio = 1 / 2\<rparr>]"

text \<open>A selection by a third requester, half an hour after the time 1000.\<close>

definition chamadas_entre :: "chamada list" where
  "chamadas_entre = [\<lparr>remetente = ''5586933334444'', instante = 1801000, sorteio = 1 / 2\<rparr>]"

text \<open>
  Three selections in a row, one hour apart, by a requester whose id has no digit,
  starting from the state of a freshly loaded module.
\<close>

definition selecao_anonima_1 :: selecao where
  "selecao_anonima_1 = selecionarChavePixInteligente '''' 1000 0 estado_pix_inicial"

definition selecao_anonima_2 :: selecao where
  "selecao_anonima_2 =
     selecionarChavePixInteligente '''' (1000 + UMA_HORA) 0 (depois selecao_anonima_1)"

definition selecao_anonima_3 :: selecao where
  "selecao_anonima_3 =
     selecionarChavePixInteligente '''' (1000 + 2 * UMA_HORA) (1 / 2) (depois selecao_anonima_2)"

definition chamadas_exemplo :: "chamada list" where
  "chamadas_exemplo =
     [\<lparr>remetente = ''5586911112222'', instante = 1000, sorteio = 1 / 2\<rparr>,
      \<lparr>remetente = ''5586933334444'', instante = 2000, sorteio = 0\<rparr>,
      \<lparr>remetente = ''5586955556666'', instante = 3000, sorteio = 3 / 4\<rparr>]"

text \<open>A greeting from another sender, at the time 6000.\<close>

definition mensagens_entre :: "recebida list" where
  "mensagens_entre = [\<lparr>corpo = ''oi'', origem = ''5586911112222'', hora = 6000, acaso = 0\<rparr>]"

definition detectar_exemplo :: "string \<Rightarrow> intencao option" where
  "detectar_exemplo mensagem =
     (if mensagem = ''qual o pix'' then Some Pix
      else if mensagem = ''oi'' then Some Saudacao
      else if mensagem = ''que horas abre'' then Some Horario
      else None)"

text \<open>
  A run in which the timer fires a second time while the first call awaits the
  dispatch of an order: both queries were sent with the cursor 0 and get the same row.
\<close>

definition corrida_exemplo :: "acontecimento list" where
  "corrida_exemplo =
     [Temporizador, RespostaConsulta 0 (consultarPedidos [exemplo_pedido] 0),
      Temporizador, RespostaConsulta 1 (consultarPedidos [exemplo_pedido] 0),
      FimDespacho 0, FimDespacho 1]"

text \<open>
  A run with three calls: call 1 starts while call 0 awaits the dispatch of the first
  order, and its own dispatch of that order returns only after call 2 has fetched and
  dispatched a later order.
\<close>

definition corrida_recuo :: "acontecimento list" where
  "corrida_recuo =
     [Temporizador, RespostaConsulta 0 (consultarPedidos [exemplo_pedido] 0),
      Temporizador, RespostaConsulta 1 (consultarPedidos [exemplo_pedido] 0),
      FimDespacho 0,
      Temporizador, RespostaConsulta 2 (consultarPedidos [exemplo_pedido, exemplo_retirada] 5),
      FimDespacho 2,
      FimDespacho 1]"

lemmas exemplos = exemplo_ambiente_def exemplo_ligacao_def exemplo_pedido_def exemplo_retirada_def
  sondagem_inicial_def ambiente_sem_loja_def

lemmas sondagem_defs = verificarNovosPedidos_def consultarPedidos_def novosPedidosDe_def
  LIMITE_CONSULTA_def processarPedido_def adicionar_def limparExcedente_def MAX_PEDIDOS_CACHE_def
  verificarStatusLoja_def aplicar_def Let_def

lemmas moldes_defs = gerarMensagemCliente_def gerarMensagemPedidoRecebido_def
  gerarMensagemEntregador_def formatarItensPedido_def

lemmas despacho_defs = processarNovoPedido_def enviarGerada_def moldes_defs
  tipo_do_pedido_def ou_def presente_def texto_de_def

section \<open>The processed set keeps the ids of the last ticks\<close>









lemma processarPedido_duplicado:
  "id_pedido p \<in> set (pedidosProcessados (estado t)) \<Longrightarrow>
     processarPedido amb p t = t\<lparr>estado := (estado t)\<lparr>ultimoPedidoProcessado := created_at p\<rparr>\<rparr>"
  by (simp add: processarPedido_def Let_def)

lemma processarPedido_lancou:
  "id_pedido p \<notin> set (pedidosProcessados (estado t)) \<Longrightarrow> lancou (processarNovoPedido amb p) = Some e \<Longrightarrow>
     processarPedido amb p t =
       t\<lparr>despachos := despachos t @ [(p, processarNovoPedido amb p)], capturado := Some e\<rparr>"
  by (simp add: processarPedido_def Let_def)

lemma processarPedido_retornou:
  "id_pedido p \<notin> set (pedidosProcessados (estado t)) \<Longrightarrow> lancou (processarNovoPedido amb p) = None \<Longrightarrow>
     processarPedido amb p t =
       t\<lparr>estado := (estado t)\<lparr>pedidosProcessados :=
                         limparExcedente (adicionar (id_pedido p) (pedidosProcessados (estado t))),
                       ultimoPedidoProcessado := created_at p\<rparr>,
         despachos := despachos t @ [(p, processarNovoPedido amb p)]\<rparr>"
  by (simp add: processarPedido_def Let_def)

lemma processarPedido_casos:
  obtains (duplicado) "id_pedido p \<in> set (pedidosProcessados (estado t))"
  | (lancou) e where "id_pedido p \<notin> set (pedidosProcessados (estado t))"
      "lancou (processarNovoPedido amb p) = Some e"
  | (retornou) "id_pedido p \<notin> set (pedidosProcessados (estado t))"
      "lancou (processarNovoPedido amb p) = None"
  by (cases "lancou (processarNovoPedido amb p)") auto

lemma capturado_processarPedido:
  assumes "capturado (processarPedido amb p t) = None"
  shows "capturado t = None"
    and "id_pedido p \<in> set (pedidosProcessados (estado t)) \<or> lancou (processarNovoPedido amb p) = None"
  using assms
  by (cases rule: processarPedido_casos[where p = p and t = t and amb = amb];
      simp add: processarPedido_duplicado processarPedido_lancou processarPedido_retornou)+

lemma capturado_processarLote:
  "capturado (processarLote amb ps t) = None \<Longrightarrow> capturado t = None"
proof (induction ps arbitrary: t)
  case Nil
  then show ?case by simp
next
  case (Cons p ps)
  show ?case
  proof (cases "capturado (processarPedido amb p t) = None")
    case True
    then show ?thesis by (rule capturado_processarPedido(1))
  next
    case False
    then show ?thesis using Cons.prems by (simp add: Let_def)
  qed
qed






lemma cursor_processarPedido:
  "capturado (processarPedido amb p t) = None \<Longrightarrow>
     ultimoPedidoProcessado (estado (processarPedido amb p t)) = created_at p"
  by (cases rule: processarPedido_casos[where p = p and t = t and amb = amb];
      simp add: processarPedido_duplicado processarPedido_lancou processarPedido_retornou)+

lemma cursor_processarLote:
  "capturado (processarLote amb ps t) = None \<Longrightarrow>
     ultimoPedidoProcessado (estado (processarLote amb ps t)) =
       (if ps = [] then ultimoPedidoProcessado (estado t) else created_at (last ps))"
proof (induction ps arbitrary: t)
  case Nil
  then show ?case by simp
next
  case (Cons p ps)
  let ?t = "processarPedido amb p t"
  have livre: "capturado ?t = None"
  proof (rule ccontr)
    assume "capturado ?t \<noteq> None"
    then have "processarLote amb (p # ps) t = ?t" by (simp add: Let_def)
    then show False using Cons.prems \<open>capturado ?t \<noteq> None\<close> by simp
  qed
  then have resto: "processarLote amb (p # ps) t = processarLote amb ps ?t" by (simp add: Let_def)
  then have "capturado (processarLote amb ps ?t) = None" using Cons.prems by simp
  from Cons.IH[OF this] show ?case
    using resto cursor_processarPedido[OF livre] by simp
qed

text \<open>
  When the catch of the tick is reached, the cursor is where the orders before the one
  that threw have left it.
\<close>

lemma cursor_processarLote_capturado:
  "capturado t = None \<Longrightarrow> capturado (processarLote amb ps t) \<noteq> None \<Longrightarrow>
     \<exists>antes p depois. ps = antes @ p # depois \<and> lancou (processarNovoPedido amb p) \<noteq> None \<and>
       ultimoPedidoProcessado (estado (processarLote amb ps t)) =
         (if antes = [] then ultimoPedidoProcessado (estado t) else created_at (last antes))"
proof (induction ps arbitrary: t)
  case Nil
  then show ?case by simp
next
  case (Cons p ps)
  let ?t = "processarPedido amb p t"
  show ?case
  proof (cases "capturado ?t = None")
    case True
    then have resto: "processarLote amb (p # ps) t = processarLote amb ps ?t" by (simp add: Let_def)
    then have "capturado (processarLote amb ps ?t) \<noteq> None" using Cons.prems(2) by simp
    from Cons.IH[OF True this] obtain antes q depois where
      ps: "ps = antes @ q # depois" and q: "lancou (processarNovoPedido amb q) \<noteq> None"
      and c: "ultimoPedidoProcessado (estado (processarLote amb ps ?t)) =
         (if antes = [] then ultimoPedidoProcessado (estado ?t) else created_at (last antes))"
      by blast
    have "p # ps = (p # antes) @ q # depois" using ps by simp
    moreover have "ultimoPedidoProcessado (estado (processarLote amb (p # ps) t)) =
        (if p # antes = [] then ultimoPedidoProcessado (estado t) else created_at (last (p # antes)))"
      using c resto cursor_processarPedido[OF True] by simp
    ultimately show ?thesis using q by blast
  next
    case False
    then have fim: "processarLote amb (p # ps) t = ?t" by (simp add: Let_def)
    have novo: "id_pedido p \<notin> set (pedidosProcessados (estado t))"
      using False Cons.prems(1) by (auto simp: processarPedido_duplicado)
    have lanca: "lancou (processarNovoPedido amb p) \<noteq> None"
    proof
      assume "lancou (processarNovoPedido amb p) = None"
      then have "capturado ?t = capturado t" using novo by (simp add: processarPedido_retornou)
      then show False using False Cons.prems(1) by simp
    qed
    then obtain e where e: "lancou (processarNovoPedido amb p) = Some e" by auto
    have "ultimoPedidoProcessado (estado ?t) = ultimoPedidoProcessado (estado t)"
      using novo e by (simp add: processarPedido_lancou)
    moreover have "p # ps = [] @ p # ps" by simp
    ultimately show ?thesis using lanca fim by (metis (full_types))
  qed
qed

lemma consultou_processarPedido: "consultou (processarPedido amb p t) = consultou t"
  by (cases rule: processarPedido_casos[where p = p and t = t and amb = amb];
      simp add: processarPedido_duplicado processarPedido_lancou processarPedido_retornou)+

lemma consultou_processarLote: "consultou (processarLote amb ps t) = consultou t"
  by (induction ps arbitrary: t) (simp_all add: consultou_processarPedido Let_def)



section \<open>The cursor never moves back\<close>

lemma novosPedidosDe_depois: "p \<in> set (novosPedidosDe tabela cursor) \<Longrightarrow> cursor < created_at p"
  by (auto simp: novosPedidosDe_def dest!: in_set_takeD)

lemma novosPedidosDe_sorted: "sorted (map created_at (novosPedidosDe tabela cursor))"
  by (simp add: novosPedidosDe_def take_map[symmetric] sorted_wrt_take)

lemma novosPedidosDe_limite: "length (novosPedidosDe tabela cursor) \<le> LIMITE_CONSULTA"
  by (simp add: novosPedidosDe_def)

lemma cursor_processarPedido_em:
  "ultimoPedidoProcessado (estado (processarPedido amb p t)) \<in>
     {ultimoPedidoProcessado (estado t), created_at p}"
  by (cases rule: processarPedido_casos[where p = p and t = t and amb = amb];
      simp add: processarPedido_duplicado processarPedido_lancou processarPedido_retornou)+

lemma cursor_processarLote_em:
  "ultimoPedidoProcessado (estado (processarLote amb ps t)) \<in>
     insert (ultimoPedidoProcessado (estado t)) (created_at ` set ps)"
proof (induction ps arbitrary: t)
  case Nil
  then show ?case by simp
next
  case (Cons p ps)
  show ?case
    using Cons.IH[of "processarPedido amb p t"] cursor_processarPedido_em[of amb p t]
    by (auto simp: Let_def)
qed

lemma cursor_verificarNovosPedidos:
  "capturado (verificarNovosPedidos amb consulta st) = None \<Longrightarrow>
   ultimoPedidoProcessado (estado (verificarNovosPedidos amb consulta st)) =
     (if lojaFechadaPeloAdmin st then ultimoPedidoProcessado st
      else case consulta (ultimoPedidoProcessado st) of
             Erro \<Rightarrow> ultimoPedidoProcessado st
           | Dados lote \<Rightarrow> if lote = [] then ultimoPedidoProcessado st else created_at (last lote))"
  by (auto simp: verificarNovosPedidos_def cursor_processarLote split: resposta.splits)

lemma cursor_verificarNovosPedidos_em:
  "ultimoPedidoProcessado (estado (verificarNovosPedidos amb (consultarPedidos tabela) st)) \<in>
     insert (ultimoPedidoProcessado st)
       (created_at ` set (novosPedidosDe tabela (ultimoPedidoProcessado st)))"
  using cursor_processarLote_em[of amb "novosPedidosDe tabela (ultimoPedidoProcessado st)"
      "\<lparr>estado = st, consultou = True, despachos = [], capturado = None\<rparr>"]
  by (simp add: verificarNovosPedidos_def consultarPedidos_def)

lemma cursor_aplicar: "ultimoPedidoProcessado st \<le> ultimoPedidoProcessado (aplicar amb ev st)"
proof (cases ev)
  case (Tique banco)
  show ?thesis
  proof (cases banco)
    case None
    then show ?thesis using Tique by (simp add: aplicar_def verificarNovosPedidos_def)
  next
    case (Some tabela)
    have "\<forall>p \<in> set (novosPedidosDe tabela (ultimoPedidoProcessado st)).
        ultimoPedidoProcessado st \<le> created_at p"
      using novosPedidosDe_depois[of _ tabela "ultimoPedidoProcessado st"] by (auto intro: less_imp_le)
    then show ?thesis
      using Tique Some cursor_verificarNovosPedidos_em[of amb tabela st]
      by (auto simp: aplicar_def)
  qed
next
  case (StatusLoja r)
  then show ?thesis by (simp add: aplicar_def verificarStatusLoja_def Let_def split: resposta.splits)
qed

lemma cursores_hd: "hd (cursores amb evs st) = ultimoPedidoProcessado st"
  by (cases evs) simp_all

lemma cursores_sorted: "sorted (cursores amb evs st)"
proof (induction evs arbitrary: st)
  case Nil
  then show ?case by simp
next
  case (Cons ev evs)
  have "\<forall>c \<in> set (cursores amb evs (aplicar amb ev st)). ultimoPedidoProcessado (aplicar amb ev st) \<le> c"
    using Cons.IH[of "aplicar amb ev st"] cursores_hd[of amb evs "aplicar amb ev st"]
    by (cases "cursores amb evs (aplicar amb ev st)") auto
  then show ?case using Cons.IH[of "aplicar amb ev st"] cursor_aplicar[of st amb ev]
    by (auto intro: order_trans)
qed

section \<open>Deduplication across two ticks\<close>




section \<open>The cursor after a tick\<close>

text \<open>
  C2 (as amended). Over any run of poller ticks one after the other (and reads of the
  admin flag in between), each tick querying the rows the store holds at that moment,
  the cursor never decreases. In a tick with the store open, the rows fetched are
  created strictly after the cursor, ascending by \<open>created_at\<close>, at most ten. When the
  tick ends without an exception, the cursor is the \<open>created_at\<close> of the last row
  fetched, whatever ids were already processed, and unchanged with no row fetched. When
  a dispatch throws, the tick ends there: the cursor is the \<open>created_at\<close> of the row
  before the one whose dispatch threw, and unchanged when that one is the first.
\<close>

theorem cursor_monotono:
  "sorted (cursores amb evs st) \<and>
   (\<not> lojaFechadaPeloAdmin st \<longrightarrow>
      (let lote = novosPedidosDe tabela (ultimoPedidoProcessado st);
           t = verificarNovosPedidos amb (consultarPedidos tabela) st
       in (\<forall>p \<in> set lote. ultimoPedidoProcessado st < created_at p) \<and>
          sorted (map created_at lote) \<and>
          length lote \<le> LIMITE_CONSULTA \<and>
          (capturado t = None \<longrightarrow>
             ultimoPedidoProcessado (estado t) =
               (if lote = [] then ultimoPedidoProcessado st else created_at (last lote))) \<and>
          (capturado t \<noteq> None \<longrightarrow>
             (\<exists>antes p depois. lote = antes @ p # depois \<and>
                lancou (processarNovoPedido amb p) \<noteq> None \<and>
                ultimoPedidoProcessado (estado t) =
                  (if antes = [] then ultimoPedidoProcessado st else created_at (last antes))))))"
proof -
  let ?lote = "novosPedidosDe tabela (ultimoPedidoProcessado st)"
  let ?t = "verificarNovosPedidos amb (consultarPedidos tabela) st"
  have ordenados: "sorted (cursores amb evs st)" by (rule cursores_sorted)
  have depois: "\<forall>p \<in> set ?lote. ultimoPedidoProcessado st < created_at p"
    by (simp add: novosPedidosDe_depois)
  have fim: "ultimoPedidoProcessado (estado ?t) =
      (if ?lote = [] then ultimoPedidoProcessado st else created_at (last ?lote))"
    if "\<not> lojaFechadaPeloAdmin st" "capturado ?t = None"
    using that cursor_verificarNovosPedidos[OF that(2)] by (simp add: consultarPedidos_def)
  have interrompido: "\<exists>antes p depois. ?lote = antes @ p # depois \<and>
        lancou (processarNovoPedido amb p) \<noteq> None \<and>
        ultimoPedidoProcessado (estado ?t) =
          (if antes = [] then ultimoPedidoProcessado st else created_at (last antes))"
    if "\<not> lojaFechadaPeloAdmin st" "capturado ?t \<noteq> None"
  proof -
    have v: "?t = processarLote amb ?lote (novo_tique st)"
      using that(1) by (simp add: verificarNovosPedidos_def consultarPedidos_def novo_tique_def)
    have n: "capturado (novo_tique st) = None" by (simp add: novo_tique_def)
    have e: "ultimoPedidoProcessado (estado (novo_tique st)) = ultimoPedidoProcessado st"
      by (simp add: novo_tique_def)
    have c: "capturado (processarLote amb ?lote (novo_tique st)) \<noteq> None"
      using that(2) unfolding v .
    show ?thesis unfolding v using cursor_processarLote_capturado[OF n c] unfolding e .
  qed
  show ?thesis
    unfolding Let_def
    using ordenados depois fim interrompido novosPedidosDe_sorted[of tabela "ultimoPedidoProcessado st"]
      novosPedidosDe_limite[of tabela "ultimoPedidoProcessado st"]
    by blast
qed

theorem cursor_monotono_witness:
  "\<not> lojaFechadaPeloAdmin sondagem_inicial \<and>
   cursores exemplo_ambiente
     [Tique (Some [exemplo_pedido]), Tique None, StatusLoja (Dados (Some ''closed'')),
      Tique (Some [exemplo_retirada, exemplo_pedido]), StatusLoja (Dados (Some ''open'')),
      Tique (Some [exemplo_retirada, exemplo_pedido])] sondagem_inicial = [0, 5, 5, 5, 5, 5, 9] \<and>
   sorted (cursores exemplo_ambiente
     [Tique (Some [exemplo_pedido]), Tique None, StatusLoja (Dados (Some ''closed'')),
      Tique (Some [exemplo_retirada, exemplo_pedido]), StatusLoja (Dados (Some ''open'')),
      Tique (Some [exemplo_retirada, exemplo_pedido])] sondagem_inicial) \<and>
   novosPedidosDe [exemplo_retirada, exemplo_pedido] (ultimoPedidoProcessado sondagem_inicial)
     = [exemplo_pedido, exemplo_retirada] \<and>
   capturado (verificarNovosPedidos exemplo_ambiente
      (consultarPedidos [exemplo_retirada, exemplo_pedido]) sondagem_inicial) = None \<and>
   ultimoPedidoProcessado (estado (verificarNovosPedidos exemplo_ambiente
      (consultarPedidos [exemplo_retirada, exemplo_pedido]) sondagem_inicial)) = 9"
proof -
  let ?evs = "[Tique (Some [exemplo_pedido]), Tique None, StatusLoja (Dados (Some ''closed'')),
      Tique (Some [exemplo_retirada, exemplo_pedido]), StatusLoja (Dados (Some ''open'')),
      Tique (Some [exemplo_retirada, exemplo_pedido])]"
  let ?t = "verificarNovosPedidos exemplo_ambiente
      (consultarPedidos [exemplo_retirada, exemplo_pedido]) sondagem_inicial"
  have a: "\<not> lojaFechadaPeloAdmin sondagem_inicial" by (simp add: sondagem_inicial_def)
  have b: "cursores exemplo_ambiente ?evs sondagem_inicial = [0, 5, 5, 5, 5, 5, 9]"
    by (simp add: exemplos sondagem_defs despacho_defs)
  have c: "novosPedidosDe [exemplo_retirada, exemplo_pedido] (ultimoPedidoProcessado sondagem_inicial)
     = [exemplo_pedido, exemplo_retirada]"
    by (simp add: exemplos sondagem_defs)
  have d: "capturado ?t = None" by (simp add: exemplos sondagem_defs despacho_defs)
  have e: "created_at exemplo_retirada = 9" by (simp add: exemplo_retirada_def)
  from cursor_monotono[of exemplo_ambiente ?evs sondagem_inicial "[exemplo_retirada, exemplo_pedido]"]
  have "sorted (cursores exemplo_ambiente ?evs sondagem_inicial)"
    "ultimoPedidoProcessado (estado ?t) = 9"
    using a c d e by (simp_all add: Let_def)
  then show ?thesis using a b c d by simp
qed

text \<open>
  With calls that overlap the cursor moves back (the run \<open>corrida_recuo\<close>): call 2 leaves
  it at the \<open>created_at\<close> of the later order, 9, and the return of call 1's dispatch then
  writes the \<open>created_at\<close> of the earlier order, 5, over it. And a tick whose dispatch
  throws leaves the cursor at 0, not at the \<open>created_at\<close> of the row it fetched.
\<close>

theorem cursor_monotono_counterexample:
  "ultimoPedidoProcessado (sonda (executar exemplo_ambiente (take 8 corrida_recuo)
      (execucao_inicial sondagem_inicial))) = 9 \<and>
   ultimoPedidoProcessado (sonda (executar exemplo_ambiente corrida_recuo
      (execucao_inicial sondagem_inicial))) = 5 \<and>
   novosPedidosDe [exemplo_item_nulo] (ultimoPedidoProcessado sondagem_inicial) = [exemplo_item_nulo] \<and>
   created_at exemplo_item_nulo = 5 \<and>
   ultimoPedidoProcessado (estado (verificarNovosPedidos exemplo_ambiente
      (consultarPedidos [exemplo_item_nulo]) sondagem_inicial)) = 0"
  by (simp add: exemplos exemplo_item_nulo_def sondagem_defs despacho_defs
      corrida_recuo_def execucao_inicial_def passo_def)

section \<open>A tick while the store is closed\<close>

text \<open>
  C5 (as amended). The poller is gated by the cached admin flag
  \<open>lojaFechadaPeloAdmin\<close> alone, which a successful read of \<open>manual_status = 'closed'\<close>
  sets: with the flag set a tick sends no query, dispatches nothing and leaves the
  cursor and the processed set as they were.
\<close>

theorem tique_loja_fechada:
  "lojaFechadaPeloAdmin (verificarStatusLoja (Dados (Some ''closed'')) st) \<and>
   (lojaFechadaPeloAdmin st \<longrightarrow>
      verificarNovosPedidos amb consulta st =
        \<lparr>estado = st, consultou = False, despachos = [], capturado = None\<rparr>)"
  by (simp add: verificarStatusLoja_def verificarNovosPedidos_def)

theorem tique_loja_fechada_witness:
  "lojaFechadaPeloAdmin (verificarStatusLoja (Dados (Some ''closed'')) sondagem_inicial) \<and>
   verificarNovosPedidos exemplo_ambiente (consultarPedidos [exemplo_pedido])
       (verificarStatusLoja (Dados (Some ''closed'')) sondagem_inicial)
     = \<lparr>estado = verificarStatusLoja (Dados (Some ''closed'')) sondagem_inicial,
        consultou = False, despachos = [], capturado = None\<rparr>"
  using tique_loja_fechada[of "verificarStatusLoja (Dados (Some ''closed'')) sondagem_inicial"
      exemplo_ambiente "consultarPedidos [exemplo_pedido]"]
  by (simp add: verificarStatusLoja_def sondagem_inicial_def)

text \<open>
  The schedule is not consulted by the poller: on a Sunday at 20:00 with no manual
  override the availability check of the replies reports the store closed, the admin
  flag stays unset, and the tick queries the store, dispatches the order and moves the
  cursor.
\<close>

theorem tique_horario_fechado_counterexample:
  "verificarLojaAbertaSupabase None Domingo (20 * 60) = False \<and>
   verificarStatusLoja (Dados None) sondagem_inicial = sondagem_inicial \<and>
   consultou (verificarNovosPedidos exemplo_ambiente (consultarPedidos [exemplo_pedido]) sondagem_inicial) \<and>
   map fst (despachos (verificarNovosPedidos exemplo_ambiente (consultarPedidos [exemplo_pedido]) sondagem_inicial))
     = [exemplo_pedido] \<and>
   estado (verificarNovosPedidos exemplo_ambiente (consultarPedidos [exemplo_pedido]) sondagem_inicial)
     = \<lparr>ultimoPedidoProcessado = 5, pedidosProcessados = [''a1''], lojaFechadaPeloAdmin = False\<rparr>"
  by (simp add: verificarLojaAbertaSupabase_def estaNoHorario_def sondagem_defs exemplos despacho_defs)

section \<open>Status changes\<close>





text \<open>
  C6 (as amended). A status outside \<open>statusNotificar\<close>, such as \<open>pending\<close>, produces no
  send. With a store number configured (\<open>NUMERO_LOJA\<close> not empty), every status of
  \<open>statusNotificar\<close> sends to the store first; \<open>ready\<close> or \<open>pronto\<close> with a customer
  telephone makes exactly two sends, store then customer; without a telephone exactly
  one, to the store; every other status of the list exactly one, to the store.
\<close>

theorem status_gating:
  "(status p \<notin> set statusNotificar \<longrightarrow> processarAtualizacaoStatus amb p = []) \<and>
   (status p = ''pending'' \<longrightarrow> processarAtualizacaoStatus amb p = []) \<and>
   (NUMERO_LOJA amb \<noteq> [] \<longrightarrow>
      (status p \<in> set statusNotificar \<longrightarrow>
         processarAtualizacaoStatus amb p \<noteq> [] \<and>
         destino (hd (processarAtualizacaoStatus amb p)) = NUMERO_LOJA amb) \<and>
      ((status p = ''ready'' \<or> status p = ''pronto'') \<and> presente (ou (customer_phone p) (telefone p)) \<longrightarrow>
         map destino (processarAtualizacaoStatus amb p) =
           [NUMERO_LOJA amb, texto_de (ou (customer_phone p) (telefone p))]) \<and>
      ((status p = ''ready'' \<or> status p = ''pronto'') \<and> \<not> presente (ou (customer_phone p) (telefone p)) \<longrightarrow>
         map destino (processarAtualizacaoStatus amb p) = [NUMERO_LOJA amb]) \<and>
      (status p \<in> set statusNotificar \<and> status p \<noteq> ''ready'' \<and> status p \<noteq> ''pronto'' \<longrightarrow>
         map destino (processarAtualizacaoStatus amb p) = [NUMERO_LOJA amb]))"
proof -
  have fora: "processarAtualizacaoStatus amb p = []" if "status p \<notin> set statusNotificar"
    using that by (simp add: processarAtualizacaoStatus_def)
  have pendente: "''pending'' \<notin> set statusNotificar" by (simp add: statusNotificar_def)
  have pronto: "''ready'' \<in> set statusNotificar" "''pronto'' \<in> set statusNotificar"
    by (simp_all add: statusNotificar_def)
  show ?thesis
    using fora pendente pronto
    by (auto simp: processarAtualizacaoStatus_def tentativa_def Let_def)
qed

theorem status_gating_witness:
  "NUMERO_LOJA exemplo_ambiente \<noteq> [] \<and>
   status exemplo_pedido = ''ready'' \<and> presente (ou (customer_phone exemplo_pedido) (telefone exemplo_pedido)) \<and>
   map destino (processarAtualizacaoStatus exemplo_ambiente exemplo_pedido) = [''5586981319596'', ''86999990000''] \<and>
   status exemplo_retirada = ''pending'' \<and>
   processarAtualizacaoStatus exemplo_ambiente exemplo_retirada = []"
  using status_gating[of exemplo_pedido exemplo_ambiente] status_gating[of exemplo_retirada exemplo_ambiente]
  by (simp add: exemplos ou_def presente_def texto_de_def)

text \<open>
  With \<open>NUMERO_LOJA\<close> unset (the default of the program) the store send is skipped:
  \<open>ready\<close> with a customer telephone makes one send, to the customer.
\<close>

theorem status_sem_loja_counterexample:
  "status exemplo_pedido = ''ready'' \<and>
   presente (ou (customer_phone exemplo_pedido) (telefone exemplo_pedido)) \<and>
   NUMERO_LOJA ambiente_sem_loja = [] \<and>
   map destino (processarAtualizacaoStatus ambiente_sem_loja exemplo_pedido) = [''86999990000'']"
  by (simp add: exemplos processarAtualizacaoStatus_def statusNotificar_def tentativa_def
      ou_def presente_def texto_de_def Let_def)

section \<open>The fan-out of a new order\<close>





section \<open>Reconnection backoff\<close>

lemma potencia_nat: "potencia_de_2 (int n) = 2 ^ n" "potencia_de_2 (1 + int n) = 2 * 2 ^ n"
  by (simp_all add: potencia_de_2_def nat_add_distrib)

text \<open>
  C3 (as amended). A close in the reconnection branch first increments
  \<open>tentativasReconexao\<close> to \<open>k\<close>. For \<open>k\<close> from 1 to \<open>MAX_TENTATIVAS_RECONEXAO\<close> the delay
  is \<open>DELAY_BASE_RECONEXAO_MS * 2 ^ (k - 1)\<close>: the base value at the first attempt,
  doubled by each further close. When \<open>k\<close> exceeds the maximum, the attempt counter
  and the QR counter are both reset to 0. In every case a restart is scheduled.
\<close>

theorem backoff_reconexao:
  assumes "ramo_reconexao statusCode c"
  shows "let r = aoFecharConexao usar statusCode c; k = tentativasReconexao c + 1 in
           reinicio_em r \<noteq> None \<and>
           (k \<le> MAX_TENTATIVAS_RECONEXAO \<longrightarrow>
              tentativasReconexao (conexao_depois r) = k \<and>
              contadorQrCodes (conexao_depois r) = contadorQrCodes c \<and>
              reinicio_em r = Some (DELAY_BASE_RECONEXAO_MS * 2 ^ (k - 1)) \<and>
              (k < MAX_TENTATIVAS_RECONEXAO \<longrightarrow>
                 reinicio_em (aoFecharConexao usar statusCode (conexao_depois r))
                   = Some (2 * (DELAY_BASE_RECONEXAO_MS * 2 ^ (k - 1))))) \<and>
           (k > MAX_TENTATIVAS_RECONEXAO \<longrightarrow>
              tentativasReconexao (conexao_depois r) = 0 \<and>
              contadorQrCodes (conexao_depois r) = 0)"
  using assms
  by (auto simp: aoFecharConexao_def ramo_reconexao_def Let_def potencia_nat
      MAX_TENTATIVAS_RECONEXAO_def)

theorem backoff_reconexao_witness:
  "ramo_reconexao (Some ConnectionLost) (ligacao_com_tentativas 2) \<and>
   tentativasReconexao (conexao_depois (aoFecharConexao True (Some ConnectionLost) (ligacao_com_tentativas 2))) = 3 \<and>
   reinicio_em (aoFecharConexao True (Some ConnectionLost) (ligacao_com_tentativas 2)) = Some 12000 \<and>
   reinicio_em (aoFecharConexao True (Some ConnectionLost)
      (conexao_depois (aoFecharConexao True (Some ConnectionLost) (ligacao_com_tentativas 2)))) = Some 24000"
proof -
  have h: "ramo_reconexao (Some ConnectionLost) (ligacao_com_tentativas 2)"
    by (simp add: ramo_reconexao_def ligacao_com_tentativas_def exemplo_ligacao_def)
  have t: "tentativasReconexao (ligacao_com_tentativas 2) = 2"
    by (simp add: ligacao_com_tentativas_def)
  show ?thesis using backoff_reconexao[OF h, of True] h
    by (simp add: Let_def t MAX_TENTATIVAS_RECONEXAO_def DELAY_BASE_RECONEXAO_MS_def)
qed

text \<open>
  The delay is not \<open>base * 2 ^ tentativasReconexao\<close>: after the first close the counter
  is 1 and the delay is the base value, 3000 ms, not 6000 ms. And the close that
  exceeds the maximum resets the counter to 0 and waits \<open>3000 * 2 ^ (0 - 1)\<close>, 1500 ms,
  not the base value.
\<close>

theorem backoff_reconexao_counterexample:
  "tentativasReconexao (conexao_depois
      (aoFecharConexao True (Some ConnectionLost) (ligacao_com_tentativas 0))) = 1 \<and>
   reinicio_em (aoFecharConexao True (Some ConnectionLost) (ligacao_com_tentativas 0))
     = Some 3000 \<and>
   reinicio_em (aoFecharConexao True (Some ConnectionLost) (ligacao_com_tentativas 0))
     \<noteq> Some (DELAY_BASE_RECONEXAO_MS * 2 ^ 1) \<and>
   tentativasReconexao (conexao_depois
      (aoFecharConexao True (Some ConnectionLost) (ligacao_com_tentativas 5))) = 0 \<and>
   reinicio_em (aoFecharConexao True (Some ConnectionLost) (ligacao_com_tentativas 5))
     = Some 1500 \<and>
   reinicio_em (aoFecharConexao True (Some ConnectionLost) (ligacao_com_tentativas 5))
     \<noteq> Some DELAY_BASE_RECONEXAO_MS"
  by (simp add: aoFecharConexao_def ligacao_com_tentativas_def exemplo_ligacao_def Let_def
      MAX_TENTATIVAS_RECONEXAO_def DELAY_BASE_RECONEXAO_MS_def potencia_de_2_def)

section \<open>The key selector: what a selection chooses\<close>

lemma length_CHAVES_PIX: "length CHAVES_PIX = 2"
  by (simp add: CHAVES_PIX_def)

lemma todosIndices_eq: "todosIndices = [0, 1]"
  by (simp add: todosIndices_def length_CHAVES_PIX upt_rec)

lemma distinct_CHAVES_PIX: "distinct CHAVES_PIX"
  by (simp add: CHAVES_PIX_def)

lemma sortear_no_grupo:
  assumes "0 \<le> r" "r < 1" "grupo \<noteq> []"
  shows "sortear r grupo \<in> set grupo"
proof -
  have pos: "0 < (of_nat (length grupo) :: rat)" using assms(3) by simp
  have "r * of_nat (length grupo) < of_nat (length grupo)"
    using assms(2) pos by simp
  then have "\<lfloor>r * of_nat (length grupo)\<rfloor> < int (length grupo)"
    by (simp add: floor_less_iff)
  moreover have "0 \<le> \<lfloor>r * of_nat (length grupo)\<rfloor>"
    using assms(1) by simp
  ultimately have "nat \<lfloor>r * of_nat (length grupo)\<rfloor> < length grupo" by linarith
  then show ?thesis by (simp add: sortear_def)
qed

lemma grupoSorteio_props:
  assumes "candidatos \<noteq> []"
  shows "grupoSorteio st candidatos \<noteq> []"
    and "set (grupoSorteio st candidatos) \<subseteq> set candidatos"
    and "\<And>i j. i \<in> set (grupoSorteio st candidatos) \<Longrightarrow> j \<in> set candidatos \<Longrightarrow> uso st i \<le> uso st j"
proof -
  let ?m = "Min (set (map (uso st) candidatos))"
  let ?b = "filter (\<lambda>i. uso st i = ?m) candidatos"
  have fin: "finite (set (map (uso st) candidatos))" "set (map (uso st) candidatos) \<noteq> {}"
    using assms by simp_all
  from Min_in[OF fin] obtain k where k: "k \<in> set candidatos" "uso st k = ?m" by auto
  then have b: "?b \<noteq> []" by (auto simp: filter_empty_conv)
  then have eq: "grupoSorteio st candidatos = ?b" by (simp add: grupoSorteio_def Let_def)
  show "grupoSorteio st candidatos \<noteq> []" using b eq by simp
  show "set (grupoSorteio st candidatos) \<subseteq> set candidatos" using eq by auto
  fix i j assume "i \<in> set (grupoSorteio st candidatos)" "j \<in> set candidatos"
  then have "uso st i = ?m" "uso st j \<in> set (map (uso st) candidatos)" using eq by auto
  then show "uso st i \<le> uso st j" using Min_le[OF fin(1)] by metis
qed

lemma indicesCandidatos_props:
  shows "indicesCandidatos agora u \<noteq> []"
    and "set (indicesCandidatos agora u) \<subseteq> {0, 1}"
  by (auto simp: indicesCandidatos_def todosIndices_eq Let_def split: option.splits)

lemma indicesCandidatos_livre:
  "u = None \<or> (\<exists>v. u = Some v \<and> INTERVALO_BLOQUEIO_REPETICAO_MS \<le> agora - timestamp v) \<Longrightarrow>
     indicesCandidatos agora u = todosIndices"
  by (auto simp: indicesCandidatos_def todosIndices_eq Let_def split: option.splits)

lemma indicesCandidatos_bloqueio:
  "agora - timestamp v < INTERVALO_BLOQUEIO_REPETICAO_MS \<Longrightarrow>
     indice v \<notin> set (indicesCandidatos agora (Some v))"
  by (auto simp: indicesCandidatos_def todosIndices_eq Let_def length_CHAVES_PIX)

lemma map_of_definir: "map_of (definir k v h) k = Some v"
  by (induction h) auto

lemma map_of_definir_outro: "k' \<noteq> k \<Longrightarrow> map_of (definir k v h) k' = map_of h k'"
  by (induction h) auto

lemma chaves_definir: "fst ` set (definir k v h) = insert k (fst ` set h)"
  by (induction h) auto

lemma map_of_filter_mantem:
  "map_of h k = Some v \<Longrightarrow> P (k, v) \<Longrightarrow> map_of (filter P h) k = Some v"
  by (induction h) (auto split: if_splits)

lemma set_removerExcedente: "set (removerExcedente h) \<subseteq> set h"
  by (auto simp: removerExcedente_def Let_def)

lemma removerExcedente_cabe: "length h \<le> LIMITE_HISTORICO \<Longrightarrow> removerExcedente h = h"
  by (simp add: removerExcedente_def)

lemma length_filter_take: "length (filter Q (take k xs)) \<le> length (filter Q xs)"
proof -
  have "filter Q xs = filter Q (take k xs) @ filter Q (drop k xs)"
    by (metis append_take_drop_id filter_append)
  then show ?thesis by simp
qed

lemma remove_os_primeiros:
  fixes g :: "('k \<times> 'v) list"
  assumes "k \<le> length g"
  shows "length (filter (\<lambda>e. fst e \<notin> set (map fst (take k (sort_key f g)))) g) \<le> length g - k"
proof -
  define rs where "rs = take k (sort_key f g)"
  define Q where "Q = (\<lambda>e :: 'k \<times> 'v. fst e \<in> set (map fst rs))"
  have "filter Q rs = rs" by (rule filter_True) (simp add: Q_def)
  then have "k \<le> length (filter Q rs)" using assms by (simp add: rs_def)
  also have "\<dots> \<le> length (filter Q (sort_key f g))"
    unfolding rs_def by (rule length_filter_take)
  also have "\<dots> = length (filter Q g)" by (simp add: filter_sort)
  finally have "k \<le> length (filter Q g)" .
  moreover have "length (filter Q g) + length (filter (\<lambda>e. \<not> Q e) g) = length g"
    by (rule sum_length_filter_compl)
  ultimately have "length (filter (\<lambda>e. \<not> Q e) g) \<le> length g - k" by linarith
  then show ?thesis by (simp add: Q_def rs_def)
qed

lemma length_removerExcedente: "length (removerExcedente h) \<le> LIMITE_HISTORICO"
proof (cases "length h \<le> LIMITE_HISTORICO")
  case True
  then show ?thesis by (simp add: removerExcedente_def)
next
  case False
  have "length (filter (\<lambda>e. fst e \<notin> set (map fst (take (length h - LIMITE_HISTORICO)
      (sort_key (\<lambda>e. timestamp (snd e)) h)))) h) \<le> length h - (length h - LIMITE_HISTORICO)"
    by (rule remove_os_primeiros) simp
  then show ?thesis using False by (simp add: removerExcedente_def Let_def)
qed

lemma set_limparHistoricoAntigo: "set (limparHistoricoAntigo agora h) \<subseteq> set h"
  using set_removerExcedente[of "filter (entradaViva agora) h"]
  by (auto simp: limparHistoricoAntigo_def)

lemma chaves_limparHistoricoAntigo: "fst ` set (limparHistoricoAntigo agora h) \<subseteq> fst ` set h"
  using set_limparHistoricoAntigo[of agora h] by blast

lemma length_limparHistoricoAntigo: "length (limparHistoricoAntigo agora h) \<le> LIMITE_HISTORICO"
  unfolding limparHistoricoAntigo_def by (rule length_removerExcedente)

lemma distinct_limparHistoricoAntigo:
  "distinct (map fst h) \<Longrightarrow> distinct (map fst (limparHistoricoAntigo agora h))"
  by (simp add: limparHistoricoAntigo_def removerExcedente_def Let_def distinct_map_filter)

lemma map_of_limparHistoricoAntigo_origem:
  assumes "distinct (map fst h)" "map_of (limparHistoricoAntigo agora h) k = Some v"
  shows "map_of h k = Some v"
proof -
  have "(k, v) \<in> set (limparHistoricoAntigo agora h)" using assms(2) by (rule map_of_SomeD)
  then have "(k, v) \<in> set h" using set_limparHistoricoAntigo by blast
  then show ?thesis using assms(1) by simp
qed

lemma set_definir: "set (definir k v h) \<subseteq> insert (k, v) (set h)"
  by (induction h) auto

lemma distinct_definir: "distinct (map fst h) \<Longrightarrow> distinct (map fst (definir k v h))"
  by (induction h) (auto simp: chaves_definir)

lemma map_of_ausente: "k \<notin> fst ` set h \<Longrightarrow> map_of h k = None"
  by (simp add: map_of_eq_None_iff)

lemma uso_depois:
  "uso (depois (selecionarChavePixInteligente numero agora r st)) j =
     (if j = indiceSorteado (selecionarChavePixInteligente numero agora r st)
      then uso st j + 1 else uso st j)"
  by (simp add: selecionarChavePixInteligente_def Let_def uso_def)

lemma historico_depois:
  "ultimoEnvioPorNumero (depois (selecionarChavePixInteligente numero agora r st)) =
     (if normalizarNumero numero \<noteq> []
      then definir (normalizarNumero numero)
             \<lparr>indice = indiceSorteado (selecionarChavePixInteligente numero agora r st), timestamp = agora\<rparr>
             (limparHistoricoAntigo agora (ultimoEnvioPorNumero st))
      else limparHistoricoAntigo agora (ultimoEnvioPorNumero st))"
  by (simp add: selecionarChavePixInteligente_def Let_def)

lemma chaves_depois:
  "fst ` set (ultimoEnvioPorNumero (depois (selecionarChavePixInteligente numero agora r st)))
     \<subseteq> insert (normalizarNumero numero) (fst ` set (ultimoEnvioPorNumero st))"
  using chaves_limparHistoricoAntigo[of agora "ultimoEnvioPorNumero st"]
  by (auto simp: historico_depois chaves_definir)

lemma indice_sorteado:
  assumes "0 \<le> r" "r < 1"
  shows "indiceSorteado (selecionarChavePixInteligente numero agora r st) \<in>
     set (grupoSorteio st (indicesCandidatos agora
       (if normalizarNumero numero \<noteq> []
        then map_of (limparHistoricoAntigo agora (ultimoEnvioPorNumero st)) (normalizarNumero numero)
        else None)))"
  using sortear_no_grupo[OF assms grupoSorteio_props(1)[OF indicesCandidatos_props(1)]]
  by (simp add: selecionarChavePixInteligente_def Let_def)

lemma indice_valido:
  assumes "0 \<le> r" "r < 1"
  shows "indiceSorteado (selecionarChavePixInteligente numero agora r st) \<in> {0, 1}"
  using indice_sorteado[OF assms, of numero agora st]
    grupoSorteio_props(2)[OF indicesCandidatos_props(1)] indicesCandidatos_props(2)
  by blast

lemma chave_do_indice:
  "chaveSelecionada (selecionarChavePixInteligente numero agora r st) =
     CHAVES_PIX ! indiceSorteado (selecionarChavePixInteligente numero agora r st)"
  by (simp add: selecionarChavePixInteligente_def Let_def)

lemma selecao_livre:
  assumes "0 \<le> r" "r < 1"
    and "normalizarNumero numero \<notin> fst ` set (ultimoEnvioPorNumero st)"
    and "j \<in> {0, 1}"
  shows "uso st (indiceSorteado (selecionarChavePixInteligente numero agora r st)) \<le> uso st j"
proof -
  have "normalizarNumero numero \<notin> fst ` set (limparHistoricoAntigo agora (ultimoEnvioPorNumero st))"
    using assms(3) chaves_limparHistoricoAntigo[of agora "ultimoEnvioPorNumero st"] by blast
  then have "map_of (limparHistoricoAntigo agora (ultimoEnvioPorNumero st)) (normalizarNumero numero) = None"
    by (rule map_of_ausente)
  then have "indiceSorteado (selecionarChavePixInteligente numero agora r st) \<in>
      set (grupoSorteio st todosIndices)"
    using indice_sorteado[OF assms(1,2), of numero agora st]
    by (simp add: indicesCandidatos_livre)
  moreover have "j \<in> set todosIndices" using assms(4) by (auto simp: todosIndices_eq)
  moreover have "todosIndices \<noteq> []" by (simp add: todosIndices_eq)
  ultimately show ?thesis using grupoSorteio_props(3) by blast
qed

lemma historico_valido_depois:
  assumes "historico_valido T (ultimoEnvioPorNumero st)" "agora \<le> T"
  shows "historico_valido T
    (ultimoEnvioPorNumero (depois (selecionarChavePixInteligente numero agora r st)))"
proof -
  let ?h = "limparHistoricoAntigo agora (ultimoEnvioPorNumero st)"
  have limpo: "historico_valido T ?h"
    using assms(1) set_limparHistoricoAntigo[of agora "ultimoEnvioPorNumero st"]
    by (auto simp: historico_valido_def distinct_limparHistoricoAntigo)
  have "historico_valido T (definir k \<lparr>indice = i, timestamp = agora\<rparr> ?h)" for k i
    using limpo assms(2) set_definir[of k "\<lparr>indice = i, timestamp = agora\<rparr>" ?h]
    by (auto simp: historico_valido_def distinct_definir)
  then show ?thesis using limpo by (simp add: historico_depois)
qed

lemma historico_valido_selecoes:
  "historico_valido T (ultimoEnvioPorNumero st) \<Longrightarrow> \<forall>c \<in> set cs. instante c \<le> T \<Longrightarrow>
     historico_valido T (ultimoEnvioPorNumero (selecoes cs st))"
  by (induction cs arbitrary: st) (simp_all add: historico_valido_depois)

lemma historico_valido_inicial: "historico_valido T (ultimoEnvioPorNumero estado_pix_inicial)"
  by (simp add: historico_valido_def estado_pix_inicial_def)

text \<open>
  The cap deletes the oldest entries first. An entry survives it as long as fewer than
  \<open>LIMITE_HISTORICO\<close> entries of other numbers are not older than it.
\<close>

lemma length_filter_insort_key:
  "length (filter P (insort_key f x xs)) = length (filter P (x # xs))"
  by (induction xs) auto

lemma length_filter_sort_key: "length (filter P (sort_key f xs)) = length (filter P xs)"
  by (induction xs) (simp_all add: length_filter_insort_key)

lemma removerExcedente_sobrevive:
  assumes distintas: "distinct (map fst h)"
    and entrada: "map_of h n = Some e"
    and poucos: "length (posteriores n (timestamp e) h) < LIMITE_HISTORICO"
  shows "map_of (removerExcedente h) n = Some e"
proof (cases "length h \<le> LIMITE_HISTORICO")
  case True
  then show ?thesis using entrada by (simp add: removerExcedente_cabe)
next
  case False
  define f where "f = (\<lambda>y :: string \<times> ultimo_envio. timestamp (snd y))"
  define xs where "xs = sort_key f h"
  define k where "k = length h - LIMITE_HISTORICO"
  define rs where "rs = map fst (take k xs)"
  have forma: "removerExcedente h = filter (\<lambda>y. fst y \<notin> set rs) h"
    using False unfolding removerExcedente_def Let_def rs_def xs_def k_def f_def by presburger
  have em_h: "(n, e) \<in> set h" using entrada by (rule map_of_SomeD)
  have dxs: "distinct (map fst xs)"
    using distintas unfolding xs_def by (simp add: distinct_map)
  have fora: "n \<notin> set rs"
  proof
    assume "n \<in> set rs"
    then obtain e' where e': "(n, e') \<in> set (take k xs)" unfolding rs_def by auto
    from e' have "(n, e') \<in> set xs" by (rule in_set_takeD)
    then have "(n, e') \<in> set h" by (simp add: xs_def)
    then have "map_of h n = Some e'" using distintas by simp
    then have "e' = e" using entrada by simp
    then have na_frente: "(n, e) \<in> set (take k xs)" using e' by simp
    have "sorted (map f xs)" unfolding xs_def by simp
    then have "sorted (map f (take k xs) @ map f (drop k xs))"
      by (simp only: map_append[symmetric] append_take_drop_id)
    then have ord: "\<forall>a \<in> set (map f (take k xs)). \<forall>b \<in> set (map f (drop k xs)). a \<le> b"
      by (simp only: sorted_append) simp
    have depois: "\<forall>y \<in> set (drop k xs). f (n, e) \<le> f y"
    proof
      fix y assume "y \<in> set (drop k xs)"
      then have "f y \<in> set (map f (drop k xs))" by simp
      moreover have "f (n, e) \<in> set (map f (take k xs))" using na_frente by (simp only: set_map) (rule imageI)
      ultimately show "f (n, e) \<le> f y" using ord by blast
    qed
    have "distinct (map fst (take k xs) @ map fst (drop k xs))"
      using dxs by (simp only: map_append[symmetric] append_take_drop_id)
    then have dd: "set (map fst (take k xs)) \<inter> set (map fst (drop k xs)) = {}"
      by (simp only: distinct_append)
    have outras: "\<forall>y \<in> set (drop k xs). fst y \<noteq> n"
    proof
      fix y assume "y \<in> set (drop k xs)"
      then have "fst y \<in> set (map fst (drop k xs))" by simp
      moreover have "n \<in> set (map fst (take k xs))" using na_frente by force
      ultimately show "fst y \<noteq> n" using dd by blast
    qed
    have "filter (\<lambda>y. fst y \<noteq> n \<and> timestamp e \<le> timestamp (snd y)) (drop k xs) = drop k xs"
      using depois outras by (simp add: f_def)
    then have "length (drop k xs) = length (filter (\<lambda>y. fst y \<noteq> n \<and> timestamp e \<le> timestamp (snd y)) (drop k xs))"
      by simp
    also have "\<dots> \<le> length (filter (\<lambda>y. fst y \<noteq> n \<and> timestamp e \<le> timestamp (snd y)) xs)"
    proof -
      have "length (filter (\<lambda>y. fst y \<noteq> n \<and> timestamp e \<le> timestamp (snd y)) (take k xs @ drop k xs))
          = length (filter (\<lambda>y. fst y \<noteq> n \<and> timestamp e \<le> timestamp (snd y)) (take k xs))
            + length (filter (\<lambda>y. fst y \<noteq> n \<and> timestamp e \<le> timestamp (snd y)) (drop k xs))"
        by (simp only: filter_append length_append)
      then show ?thesis unfolding append_take_drop_id by linarith
    qed
    also have "\<dots> = length (posteriores n (timestamp e) h)"
      by (simp add: xs_def posteriores_def length_filter_sort_key)
    finally have "length (drop k xs) < LIMITE_HISTORICO" using poucos by simp
    moreover have "length (drop k xs) = LIMITE_HISTORICO" using False by (simp add: xs_def k_def)
    ultimately show False by simp
  qed
  show ?thesis unfolding forma using entrada fora by (intro map_of_filter_mantem) simp_all
qed

lemma posteriores_filter: "length (posteriores n T (filter Q h)) \<le> length (posteriores n T h)"
proof -
  have "posteriores n T (filter Q h) = filter Q (posteriores n T h)"
    unfolding posteriores_def filter_filter by (rule filter_cong) auto
  then show ?thesis by simp
qed

lemma posteriores_limparHistoricoAntigo:
  "length (posteriores n T (limparHistoricoAntigo agora h)) \<le> length (posteriores n T h)"
proof -
  have "\<exists>Q. removerExcedente g = filter Q g" for g
  proof (cases "length g \<le> LIMITE_HISTORICO")
    case True
    then have "removerExcedente g = filter (\<lambda>y. True) g" by (simp add: removerExcedente_def)
    then show ?thesis by blast
  next
    case False
    then have "removerExcedente g = filter (\<lambda>y. fst y \<notin> set (map fst
        (take (length g - LIMITE_HISTORICO) (sort_key (\<lambda>e. timestamp (snd e)) g)))) g"
      unfolding removerExcedente_def Let_def by presburger
    then show ?thesis by blast
  qed
  then obtain Q where "limparHistoricoAntigo agora h = filter Q (filter (entradaViva agora) h)"
    unfolding limparHistoricoAntigo_def by blast
  then show ?thesis
    using posteriores_filter[of n T Q "filter (entradaViva agora) h"]
      posteriores_filter[of n T "entradaViva agora" h] by simp
qed

lemma posteriores_definir:
  "length (posteriores n T (definir k v h)) \<le> Suc (length (posteriores n T h))"
  by (induction h) (simp_all add: posteriores_def)

lemma limparHistoricoAntigo_sobrevive:
  assumes distintas: "distinct (map fst h)"
    and entrada: "map_of h n = Some e"
    and vivo: "timestamp e \<noteq> 0" "agora - timestamp e \<le> RETENCAO_HISTORICO_MS"
    and poucos: "length (posteriores n (timestamp e) h) < LIMITE_HISTORICO"
  shows "map_of (limparHistoricoAntigo agora h) n = Some e"
proof -
  let ?g = "filter (entradaViva agora) h"
  have "entradaViva agora (n, e)" using vivo by (simp add: entradaViva_def)
  then have a: "map_of ?g n = Some e" using entrada by (intro map_of_filter_mantem)
  have b: "distinct (map fst ?g)" using distintas by (simp add: distinct_map_filter)
  have c: "length (posteriores n (timestamp e) ?g) < LIMITE_HISTORICO"
    using posteriores_filter[of n "timestamp e" "entradaViva agora" h] poucos by simp
  show ?thesis unfolding limparHistoricoAntigo_def by (rule removerExcedente_sobrevive[OF b a c])
qed

lemma distinct_depois:
  "distinct (map fst (ultimoEnvioPorNumero st)) \<Longrightarrow>
     distinct (map fst (ultimoEnvioPorNumero (depois (selecionarChavePixInteligente numero agora r st))))"
  by (simp add: historico_depois distinct_definir distinct_limparHistoricoAntigo)

lemma distinct_selecoes:
  "distinct (map fst (ultimoEnvioPorNumero st)) \<Longrightarrow>
     distinct (map fst (ultimoEnvioPorNumero (selecoes cs st)))"
  by (induction cs arbitrary: st) (simp_all add: distinct_depois)

lemma outra_selecao_sobrevive:
  assumes distintas: "distinct (map fst (ultimoEnvioPorNumero st))"
    and entrada: "map_of (ultimoEnvioPorNumero st) n = Some e"
    and vivo: "timestamp e \<noteq> 0" "agora - timestamp e \<le> RETENCAO_HISTORICO_MS"
    and poucos: "length (posteriores n (timestamp e) (ultimoEnvioPorNumero st)) < LIMITE_HISTORICO"
    and outro: "normalizarNumero numero \<noteq> n"
  shows "map_of (ultimoEnvioPorNumero (depois (selecionarChavePixInteligente numero agora r st))) n = Some e"
    and "length (posteriores n (timestamp e)
           (ultimoEnvioPorNumero (depois (selecionarChavePixInteligente numero agora r st))))
         \<le> Suc (length (posteriores n (timestamp e) (ultimoEnvioPorNumero st)))"
proof -
  let ?h = "limparHistoricoAntigo agora (ultimoEnvioPorNumero st)"
  have a: "map_of ?h n = Some e"
    by (rule limparHistoricoAntigo_sobrevive[OF distintas entrada vivo poucos])
  have b: "length (posteriores n (timestamp e) ?h)
      \<le> length (posteriores n (timestamp e) (ultimoEnvioPorNumero st))"
    by (rule posteriores_limparHistoricoAntigo)
  show "map_of (ultimoEnvioPorNumero (depois (selecionarChavePixInteligente numero agora r st))) n = Some e"
    using a outro by (simp add: historico_depois map_of_definir_outro)
  have "length (posteriores n (timestamp e) (definir k v ?h))
      \<le> Suc (length (posteriores n (timestamp e) (ultimoEnvioPorNumero st)))" for k v
    using posteriores_definir[of n "timestamp e" k v ?h] b by linarith
  then show "length (posteriores n (timestamp e)
           (ultimoEnvioPorNumero (depois (selecionarChavePixInteligente numero agora r st))))
         \<le> Suc (length (posteriores n (timestamp e) (ultimoEnvioPorNumero st)))"
    using b by (simp add: historico_depois)
qed

lemma selecoes_sobrevive:
  "distinct (map fst (ultimoEnvioPorNumero st)) \<Longrightarrow>
   map_of (ultimoEnvioPorNumero st) n = Some e \<Longrightarrow> timestamp e \<noteq> 0 \<Longrightarrow>
   \<forall>c \<in> set cs. normalizarNumero (remetente c) \<noteq> n \<and>
      instante c - timestamp e \<le> RETENCAO_HISTORICO_MS \<Longrightarrow>
   length (posteriores n (timestamp e) (ultimoEnvioPorNumero st)) + length cs < LIMITE_HISTORICO \<Longrightarrow>
     map_of (ultimoEnvioPorNumero (selecoes cs st)) n = Some e \<and>
     length (posteriores n (timestamp e) (ultimoEnvioPorNumero (selecoes cs st)))
       \<le> length (posteriores n (timestamp e) (ultimoEnvioPorNumero st)) + length cs"
proof (induction cs arbitrary: st)
  case Nil
  then show ?case by simp
next
  case (Cons c cs)
  let ?st = "depois (selecionarChavePixInteligente (remetente c) (instante c) (sorteio c) st)"
  have poucos: "length (posteriores n (timestamp e) (ultimoEnvioPorNumero st)) < LIMITE_HISTORICO"
    using Cons.prems(5) by simp
  have c: "normalizarNumero (remetente c) \<noteq> n" "instante c - timestamp e \<le> RETENCAO_HISTORICO_MS"
    using Cons.prems(4) by simp_all
  note passo = outra_selecao_sobrevive[OF Cons.prems(1,2,3) c(2) poucos c(1), of "sorteio c"]
  have d: "distinct (map fst (ultimoEnvioPorNumero ?st))"
    using Cons.prems(1) by (rule distinct_depois)
  have resto: "\<forall>c \<in> set cs. normalizarNumero (remetente c) \<noteq> n \<and>
      instante c - timestamp e \<le> RETENCAO_HISTORICO_MS"
    using Cons.prems(4) by simp
  have cabe: "length (posteriores n (timestamp e) (ultimoEnvioPorNumero ?st)) + length cs < LIMITE_HISTORICO"
    using passo(2) Cons.prems(5) by simp
  from Cons.IH[OF d passo(1) Cons.prems(3) resto cabe]
  show ?case using passo(2) by simp
qed

lemma outra_selecao_origem:
  assumes "distinct (map fst (ultimoEnvioPorNumero st))" "normalizarNumero numero \<noteq> n"
    and "map_of (ultimoEnvioPorNumero (depois (selecionarChavePixInteligente numero agora r st))) n = Some v"
  shows "map_of (ultimoEnvioPorNumero st) n = Some v"
proof -
  have "map_of (limparHistoricoAntigo agora (ultimoEnvioPorNumero st)) n = Some v"
    using assms(2,3) by (simp add: historico_depois map_of_definir_outro split: if_splits)
  then show ?thesis by (rule map_of_limparHistoricoAntigo_origem[OF assms(1)])
qed

lemma selecoes_origem:
  "distinct (map fst (ultimoEnvioPorNumero st)) \<Longrightarrow>
   \<forall>c \<in> set cs. normalizarNumero (remetente c) \<noteq> n \<Longrightarrow>
   map_of (ultimoEnvioPorNumero (selecoes cs st)) n = Some v \<Longrightarrow>
     map_of (ultimoEnvioPorNumero st) n = Some v"
proof (induction cs arbitrary: st)
  case Nil
  then show ?case by simp
next
  case (Cons c cs)
  let ?st = "depois (selecionarChavePixInteligente (remetente c) (instante c) (sorteio c) st)"
  have d: "distinct (map fst (ultimoEnvioPorNumero ?st))"
    using Cons.prems(1) by (rule distinct_depois)
  have c: "normalizarNumero (remetente c) \<noteq> n" using Cons.prems(2) by simp
  have "map_of (ultimoEnvioPorNumero ?st) n = Some v"
    using Cons.IH[OF d] Cons.prems(2,3) by simp
  then show ?case by (rule outra_selecao_origem[OF Cons.prems(1) c])
qed

lemma anti_repeticao_valido:
  assumes digitos: "normalizarNumero numero \<noteq> []"
    and instante: "T \<noteq> 0"
    and sorteios: "0 \<le> r1" "r1 < 1" "0 \<le> r2" "r2 < 1"
    and valido: "historico_valido (T - 1) (ultimoEnvioPorNumero st)"
    and outros: "\<forall>c \<in> set entre. normalizarNumero (remetente c) \<noteq> normalizarNumero numero \<and>
        instante c \<le> T + d"
    and poucos: "length entre < LIMITE_HISTORICO"
  shows "let s1 = selecionarChavePixInteligente numero T r1 st;
             st' = selecoes entre (depois s1);
             s2 = selecionarChavePixInteligente numero (T + d) r2 st'
         in chaveSelecionada s1 \<in> set CHAVES_PIX \<and> chaveSelecionada s2 \<in> set CHAVES_PIX \<and>
            (d < INTERVALO_BLOQUEIO_REPETICAO_MS \<longrightarrow> chaveSelecionada s2 \<noteq> chaveSelecionada s1) \<and>
            (INTERVALO_BLOQUEIO_REPETICAO_MS \<le> d \<longrightarrow>
               (\<forall>j < length CHAVES_PIX. uso st' (indiceSorteado s2) \<le> uso st' j))"
proof -
  define n where "n = normalizarNumero numero"
  define s1 where "s1 = selecionarChavePixInteligente numero T r1 st"
  define st' where "st' = selecoes entre (depois s1)"
  define s2 where "s2 = selecionarChavePixInteligente numero (T + d) r2 st'"
  define hc where "hc = limparHistoricoAntigo T (ultimoEnvioPorNumero st)"
  define h1 where "h1 = ultimoEnvioPorNumero (depois s1)"
  define h' where "h' = ultimoEnvioPorNumero st'"
  define e1 where "e1 = \<lparr>indice = indiceSorteado s1, timestamp = T\<rparr>"
  define u2 where "u2 = map_of (limparHistoricoAntigo (T + d) h') n"
  have te1: "timestamp e1 = T" by (simp add: e1_def)
  have i1: "indiceSorteado s1 \<in> {0, 1}" unfolding s1_def by (rule indice_valido[OF sorteios(1,2)])
  have i2: "indiceSorteado s2 \<in> {0, 1}" unfolding s2_def by (rule indice_valido[OF sorteios(3,4)])
  have h1_eq: "h1 = definir n e1 hc"
    using digitos by (simp add: h1_def s1_def historico_depois n_def e1_def hc_def)
  have entrada: "map_of h1 n = Some e1" by (simp add: h1_eq map_of_definir)
  have hc_valido: "distinct (map fst hc)" "\<forall>y \<in> set hc. timestamp (snd y) \<le> T - 1"
    using valido set_limparHistoricoAntigo[of T "ultimoEnvioPorNumero st"]
    by (auto simp: hc_def historico_valido_def distinct_limparHistoricoAntigo)
  have distintas: "distinct (map fst h1)"
    unfolding h1_eq by (intro distinct_definir hc_valido(1))
  have distintas': "distinct (map fst h')"
    unfolding h'_def st'_def using distintas[unfolded h1_def] by (rule distinct_selecoes)
  have "\<forall>y \<in> set h1. \<not> (fst y \<noteq> n \<and> T \<le> timestamp (snd y))"
  proof
    fix y assume "y \<in> set h1"
    then have "y = (n, e1) \<or> y \<in> set hc" unfolding h1_eq using set_definir by fastforce
    then show "\<not> (fst y \<noteq> n \<and> T \<le> timestamp (snd y))" using hc_valido(2) by auto
  qed
  then have nenhum: "posteriores n T h1 = []"
    unfolding posteriores_def by (simp add: filter_empty_conv)
  have outros_n: "\<forall>c \<in> set entre. normalizarNumero (remetente c) \<noteq> n"
    using outros by (simp add: n_def)
  have sorteado: "indiceSorteado s2 \<in> set (grupoSorteio st' (indicesCandidatos (T + d) u2))"
    using indice_sorteado[OF sorteios(3,4), of numero "T + d" st'] digitos
    by (simp add: s2_def u2_def h'_def n_def)
  have candidato: "indiceSorteado s2 \<in> set (indicesCandidatos (T + d) u2)"
    using sorteado grupoSorteio_props(2)[OF indicesCandidatos_props(1)] by blast
  have dentro: "chaveSelecionada s2 \<noteq> chaveSelecionada s1" if "d < INTERVALO_BLOQUEIO_REPETICAO_MS"
  proof -
    have recente: "T + d - timestamp e1 \<le> RETENCAO_HISTORICO_MS"
      using that by (simp add: e1_def INTERVALO_BLOQUEIO_REPETICAO_MS_def RETENCAO_HISTORICO_MS_def)
    have marcado: "timestamp e1 \<noteq> 0" using instante by (simp add: e1_def)
    have cedo: "\<forall>c \<in> set entre. normalizarNumero (remetente c) \<noteq> n \<and>
        instante c - timestamp e1 \<le> RETENCAO_HISTORICO_MS"
    proof
      fix c assume "c \<in> set entre"
      then have "normalizarNumero (remetente c) \<noteq> n" "instante c \<le> T + d"
        using outros by (simp_all add: n_def)
      then show "normalizarNumero (remetente c) \<noteq> n \<and>
          instante c - timestamp e1 \<le> RETENCAO_HISTORICO_MS"
        using that by (simp add: e1_def INTERVALO_BLOQUEIO_REPETICAO_MS_def RETENCAO_HISTORICO_MS_def)
    qed
    have cabe: "length (posteriores n (timestamp e1) (ultimoEnvioPorNumero (depois s1))) + length entre
        < LIMITE_HISTORICO"
      using nenhum poucos by (simp add: te1 h1_def)
    note fica = selecoes_sobrevive[OF distintas[unfolded h1_def] entrada[unfolded h1_def] marcado cedo cabe]
    have aqui: "map_of h' n = Some e1" using fica by (simp add: h'_def st'_def)
    have ainda: "length (posteriores n (timestamp e1) h') < LIMITE_HISTORICO"
      using fica nenhum poucos by (simp add: h'_def st'_def te1 h1_def)
    have "u2 = Some e1"
      unfolding u2_def by (rule limparHistoricoAntigo_sobrevive[OF distintas' aqui marcado recente ainda])
    moreover have "T + d - timestamp e1 < INTERVALO_BLOQUEIO_REPETICAO_MS"
      using that by (simp add: e1_def)
    ultimately have "indice e1 \<notin> set (indicesCandidatos (T + d) u2)"
      using indicesCandidatos_bloqueio by simp
    then have "indiceSorteado s2 \<noteq> indiceSorteado s1" using candidato by (auto simp: e1_def)
    moreover have "indiceSorteado s1 < length CHAVES_PIX" "indiceSorteado s2 < length CHAVES_PIX"
      using i1 i2 by (auto simp: length_CHAVES_PIX)
    ultimately have "CHAVES_PIX ! indiceSorteado s2 \<noteq> CHAVES_PIX ! indiceSorteado s1"
      using distinct_CHAVES_PIX by (simp add: nth_eq_iff_index_eq)
    then show ?thesis by (simp add: s1_def s2_def chave_do_indice)
  qed
  have fora: "uso st' (indiceSorteado s2) \<le> uso st' j"
    if "INTERVALO_BLOQUEIO_REPETICAO_MS \<le> d" "j < length CHAVES_PIX" for j
  proof -
    have "u2 = None \<or> (\<exists>v. u2 = Some v \<and> INTERVALO_BLOQUEIO_REPETICAO_MS \<le> T + d - timestamp v)"
    proof (cases u2)
      case None
      then show ?thesis by simp
    next
      case (Some v)
      then have "map_of h' n = Some v"
        unfolding u2_def by (rule map_of_limparHistoricoAntigo_origem[OF distintas'])
      then have "map_of h1 n = Some v"
        unfolding h'_def st'_def h1_def
        by (rule selecoes_origem[OF distintas[unfolded h1_def] outros_n])
      then have "v = e1" using entrada by simp
      then show ?thesis using Some that(1) by (simp add: e1_def)
    qed
    then have "indicesCandidatos (T + d) u2 = todosIndices" by (rule indicesCandidatos_livre)
    then have "indiceSorteado s2 \<in> set (grupoSorteio st' todosIndices)"
      using sorteado by simp
    moreover have "j \<in> set todosIndices" using that(2) by (simp add: todosIndices_def)
    moreover have "todosIndices \<noteq> []" by (simp add: todosIndices_eq)
    ultimately show ?thesis using grupoSorteio_props(3) by blast
  qed
  have "chaveSelecionada s1 \<in> set CHAVES_PIX" "chaveSelecionada s2 \<in> set CHAVES_PIX"
    using i1 i2 by (auto simp: s1_def s2_def chave_do_indice length_CHAVES_PIX)
  then show ?thesis
    unfolding Let_def s1_def[symmetric] st'_def[symmetric] s2_def[symmetric] using dentro fora by blast
qed

section \<open>No immediate repetition of a key\<close>

text \<open>
  C7 (as amended). After any run of selections since the module was loaded, all of them
  before \<open>T\<close>, a requester whose id has at least one digit selects at the clock time
  \<open>T\<close>, not zero, and next at \<open>T + d\<close>; in between, fewer than \<open>LIMITE_HISTORICO\<close>
  (2000) selections are made by other requesters, none of them later than \<open>T + d\<close>. If
  \<open>d\<close> is inside the block window of six hours (one hour, for one), the second key
  differs from the first. If \<open>d\<close> is six hours or more (seven hours, for one), no index
  is excluded: the second key is one of the least used of all keys, and it can be the
  first key again. The candidate list is never empty, for any time and any history
  entry, and both selections return a key of \<open>CHAVES_PIX\<close>.
\<close>

theorem anti_repeticao:
  assumes digitos: "normalizarNumero numero \<noteq> []"
    and instante: "T \<noteq> 0"
    and sorteios: "0 \<le> r1" "r1 < 1" "0 \<le> r2" "r2 < 1"
    and antes: "\<forall>c \<in> set chamadas. instante c < T"
    and outros: "\<forall>c \<in> set entre. normalizarNumero (remetente c) \<noteq> normalizarNumero numero \<and>
        instante c \<le> T + d"
    and poucos: "length entre < LIMITE_HISTORICO"
  shows "let st = selecoes chamadas estado_pix_inicial;
             s1 = selecionarChavePixInteligente numero T r1 st;
             st' = selecoes entre (depois s1);
             s2 = selecionarChavePixInteligente numero (T + d) r2 st'
         in chaveSelecionada s1 \<in> set CHAVES_PIX \<and> chaveSelecionada s2 \<in> set CHAVES_PIX \<and>
            indicesCandidatos agora ultimoEnvio \<noteq> [] \<and>
            (d < INTERVALO_BLOQUEIO_REPETICAO_MS \<longrightarrow> chaveSelecionada s2 \<noteq> chaveSelecionada s1) \<and>
            (INTERVALO_BLOQUEIO_REPETICAO_MS \<le> d \<longrightarrow>
               (\<forall>j < length CHAVES_PIX. uso st' (indiceSorteado s2) \<le> uso st' j))"
proof -
  have "\<forall>c \<in> set chamadas. instante c \<le> T - 1" using antes by auto
  with historico_valido_inicial
  have "historico_valido (T - 1) (ultimoEnvioPorNumero (selecoes chamadas estado_pix_inicial))"
    by (rule historico_valido_selecoes)
  from anti_repeticao_valido[OF digitos instante sorteios this outros poucos]
  show ?thesis by (simp add: Let_def indicesCandidatos_props(1))
qed

theorem anti_repeticao_witness:
  "normalizarNumero numero_exemplo \<noteq> [] \<and> (1000 :: int) \<noteq> 0 \<and>
   instante (hd chamadas_anteriores) < 1000 \<and>
   normalizarNumero (remetente (hd chamadas_entre)) \<noteq> normalizarNumero numero_exemplo \<and>
   instante (hd chamadas_entre) \<le> 1000 + UMA_HORA \<and>
   length chamadas_entre < LIMITE_HISTORICO \<and>
   UMA_HORA < INTERVALO_BLOQUEIO_REPETICAO_MS \<and>
   chaveSelecionada (selecionarChavePixInteligente numero_exemplo (1000 + UMA_HORA) 0
       (selecoes chamadas_entre (depois (selecionarChavePixInteligente numero_exemplo 1000 0
          (selecoes chamadas_anteriores estado_pix_inicial)))))
     \<noteq> chaveSelecionada (selecionarChavePixInteligente numero_exemplo 1000 0
          (selecoes chamadas_anteriores estado_pix_inicial)) \<and>
   INTERVALO_BLOQUEIO_REPETICAO_MS \<le> 7 * UMA_HORA \<and>
   chaveSelecionada (selecionarChavePixInteligente numero_exemplo (1000 + 7 * UMA_HORA) 0
       (selecoes chamadas_entre (depois (selecionarChavePixInteligente numero_exemplo 1000 0
          (selecoes chamadas_anteriores estado_pix_inicial)))))
     = chaveSelecionada (selecionarChavePixInteligente numero_exemplo 1000 0
          (selecoes chamadas_anteriores estado_pix_inicial)) \<and>
   uso (selecoes chamadas_entre (depois (selecionarChavePixInteligente numero_exemplo 1000 0
          (selecoes chamadas_anteriores estado_pix_inicial)))) 0
     \<le> uso (selecoes chamadas_entre (depois (selecionarChavePixInteligente numero_exemplo 1000 0
          (selecoes chamadas_anteriores estado_pix_inicial)))) 1"
proof -
  let ?s1 = "selecionarChavePixInteligente numero_exemplo 1000 0
          (selecoes chamadas_anteriores estado_pix_inicial)"
  let ?st' = "selecoes chamadas_entre (depois ?s1)"
  have h1: "normalizarNumero numero_exemplo \<noteq> []" by code_simp
  have h2: "(1000 :: int) \<noteq> 0" by simp
  have r: "(0 :: rat) \<le> 0" "(0 :: rat) < 1" by simp_all
  have h3: "\<forall>c \<in> set chamadas_anteriores. instante c < 1000"
    by (simp add: chamadas_anteriores_def)
  have h3': "instante (hd chamadas_anteriores) < 1000"
    by (simp add: chamadas_anteriores_def)
  have h4a: "normalizarNumero (remetente (hd chamadas_entre)) \<noteq> normalizarNumero numero_exemplo"
    by code_simp
  have h4b: "instante (hd chamadas_entre) \<le> 1000 + UMA_HORA"
    by (simp add: chamadas_entre_def UMA_HORA_def)
  have h4c: "instante (hd chamadas_entre) \<le> 1000 + 7 * UMA_HORA"
    by (simp add: chamadas_entre_def UMA_HORA_def)
  have um: "chamadas_entre = [hd chamadas_entre]" by (simp add: chamadas_entre_def)
  have h4: "\<forall>c \<in> set chamadas_entre. normalizarNumero (remetente c) \<noteq> normalizarNumero numero_exemplo \<and>
      instante c \<le> 1000 + UMA_HORA"
    using h4a h4b by (subst um) simp
  have h4': "\<forall>c \<in> set chamadas_entre. normalizarNumero (remetente c) \<noteq> normalizarNumero numero_exemplo \<and>
      instante c \<le> 1000 + 7 * UMA_HORA"
    using h4a h4c by (subst um) simp
  have h5: "length chamadas_entre < LIMITE_HISTORICO"
    by (simp add: chamadas_entre_def LIMITE_HISTORICO_def)
  have dentro: "UMA_HORA < INTERVALO_BLOQUEIO_REPETICAO_MS"
    by (simp add: UMA_HORA_def INTERVALO_BLOQUEIO_REPETICAO_MS_def)
  have fora: "INTERVALO_BLOQUEIO_REPETICAO_MS \<le> 7 * UMA_HORA"
    by (simp add: UMA_HORA_def INTERVALO_BLOQUEIO_REPETICAO_MS_def)
  have outra: "chaveSelecionada (selecionarChavePixInteligente numero_exemplo (1000 + UMA_HORA) 0 ?st')
     \<noteq> chaveSelecionada ?s1"
    using anti_repeticao[OF h1 h2 r r h3 h4 h5] dentro by (simp add: Let_def)
  have indice7: "indiceSorteado (selecionarChavePixInteligente numero_exemplo (1000 + 7 * UMA_HORA) 0 ?st') = 0"
    by code_simp
  have "0 < length CHAVES_PIX \<and> 1 < length CHAVES_PIX" by (simp add: length_CHAVES_PIX)
  then have menos: "uso ?st' 0 \<le> uso ?st' 1"
    using anti_repeticao[OF h1 h2 r r h3 h4' h5] fora indice7 by (simp add: Let_def)
  have mesma: "chaveSelecionada (selecionarChavePixInteligente numero_exemplo (1000 + 7 * UMA_HORA) 0 ?st')
     = chaveSelecionada ?s1"
    by code_simp
  show ?thesis using h1 h2 h3' h4a h4b h5 dentro fora outra mesma menos by blast
qed

text \<open>
  A requester whose id has no digit is neither looked up nor recorded in the history:
  its second and third selections, one hour apart, both return the second key.
\<close>

theorem anti_repeticao_counterexample:
  "normalizarNumero '''' = [] \<and>
   indiceSorteado selecao_anonima_2 = 1 \<and>
   indiceSorteado selecao_anonima_3 = 1 \<and>
   chaveSelecionada selecao_anonima_3 = chaveSelecionada selecao_anonima_2 \<and>
   ultimoEnvioPorNumero (depois selecao_anonima_2) = []"
  by code_simp

section \<open>Fair rotation\<close>

text \<open>
  C8. Starting with the two counters at most one apart (as when the module is loaded),
  any number of selections in a row, 100 for one, by requesters with pairwise distinct
  normalised ids and no entry in the history, leaves the two \<open>usoPorIndice\<close> counters at
  most one apart; each selection adds exactly one to one counter.
\<close>

theorem rotacao_justa:
  assumes "\<forall>c \<in> set chamadas. 0 \<le> sorteio c \<and> sorteio c < 1"
    and "distinct (map (\<lambda>c. normalizarNumero (remetente c)) chamadas)"
    and "\<forall>c \<in> set chamadas. normalizarNumero (remetente c) \<notin> fst ` set (ultimoEnvioPorNumero st)"
    and "uso st 0 \<le> uso st 1 + 1" and "uso st 1 \<le> uso st 0 + 1"
  shows "uso (selecoes chamadas st) 0 \<le> uso (selecoes chamadas st) 1 + 1 \<and>
         uso (selecoes chamadas st) 1 \<le> uso (selecoes chamadas st) 0 + 1 \<and>
         uso (selecoes chamadas st) 0 + uso (selecoes chamadas st) 1
           = uso st 0 + uso st 1 + length chamadas"
  using assms
proof (induction chamadas arbitrary: st)
  case Nil
  then show ?case by simp
next
  case (Cons c cs)
  let ?s = "selecionarChavePixInteligente (remetente c) (instante c) (sorteio c) st"
  have r: "0 \<le> sorteio c" "sorteio c < 1" using Cons.prems(1) by simp_all
  have livre: "normalizarNumero (remetente c) \<notin> fst ` set (ultimoEnvioPorNumero st)"
    using Cons.prems(3) by simp
  have i: "indiceSorteado ?s \<in> {0, 1}" using indice_valido[OF r] .
  have menor: "uso st (indiceSorteado ?s) \<le> uso st 0" "uso st (indiceSorteado ?s) \<le> uso st 1"
    using selecao_livre[OF r livre] by simp_all
  define k where "k = indiceSorteado ?s"
  have depois_k: "uso (depois ?s) j = (if j = k then uso st j + 1 else uso st j)" for j
    unfolding k_def by (rule uso_depois)
  have k: "k = 0 \<or> k = 1" "uso st k \<le> uso st 0" "uso st k \<le> uso st 1"
    using i menor by (simp_all add: k_def)
  have passo: "uso (depois ?s) 0 \<le> uso (depois ?s) 1 + 1" "uso (depois ?s) 1 \<le> uso (depois ?s) 0 + 1"
      "uso (depois ?s) 0 + uso (depois ?s) 1 = uso st 0 + uso st 1 + 1"
    using k Cons.prems(4,5) unfolding depois_k by auto
  have fora: "normalizarNumero (remetente c) \<notin> set (map (\<lambda>c. normalizarNumero (remetente c)) cs)"
    using Cons.prems(2) by simp
  have resto: "\<forall>d \<in> set cs. normalizarNumero (remetente d) \<notin> fst ` set (ultimoEnvioPorNumero (depois ?s))"
  proof
    fix d assume d: "d \<in> set cs"
    then have "normalizarNumero (remetente d) \<in> set (map (\<lambda>c. normalizarNumero (remetente c)) cs)"
      by simp
    then have "normalizarNumero (remetente d) \<noteq> normalizarNumero (remetente c)"
      using fora by metis
    moreover have "normalizarNumero (remetente d) \<notin> fst ` set (ultimoEnvioPorNumero st)"
      using Cons.prems(3) d by simp
    ultimately show "normalizarNumero (remetente d) \<notin> fst ` set (ultimoEnvioPorNumero (depois ?s))"
      using chaves_depois[of "remetente c" "instante c" "sorteio c" st] by blast
  qed
  have sorteios: "\<forall>c \<in> set cs. 0 \<le> sorteio c \<and> sorteio c < 1" using Cons.prems(1) by simp
  have distintos: "distinct (map (\<lambda>c. normalizarNumero (remetente c)) cs)" using Cons.prems(2) by simp
  note hi = Cons.IH[OF sorteios distintos resto passo(1,2)]
  have "selecoes (c # cs) st = selecoes cs (depois ?s)" by simp
  then show ?case using hi passo(3) by (simp del: selecoes.simps)
qed

theorem rotacao_justa_witness:
  "(0 \<le> (1 / 2 :: rat) \<and> (1 / 2 :: rat) < 1) \<and>
   distinct (map (\<lambda>c. normalizarNumero (remetente c)) chamadas_exemplo) \<and>
   uso estado_pix_inicial 0 \<le> uso estado_pix_inicial 1 + 1 \<and>
   uso estado_pix_inicial 1 \<le> uso estado_pix_inicial 0 + 1 \<and>
   uso (selecoes chamadas_exemplo estado_pix_inicial) 0 = 1 \<and>
   uso (selecoes chamadas_exemplo estado_pix_inicial) 1 = 2 \<and>
   uso (selecoes chamadas_exemplo estado_pix_inicial) 0 \<le> uso (selecoes chamadas_exemplo estado_pix_inicial) 1 + 1 \<and>
   uso (selecoes chamadas_exemplo estado_pix_inicial) 1 \<le> uso (selecoes chamadas_exemplo estado_pix_inicial) 0 + 1"
proof -
  have h1: "\<forall>c \<in> set chamadas_exemplo. 0 \<le> sorteio c \<and> sorteio c < 1"
    by (simp add: chamadas_exemplo_def)
  have h2: "distinct (map (\<lambda>c. normalizarNumero (remetente c)) chamadas_exemplo)"
    by code_simp
  have h3: "\<forall>c \<in> set chamadas_exemplo.
      normalizarNumero (remetente c) \<notin> fst ` set (ultimoEnvioPorNumero estado_pix_inicial)"
    by (simp add: estado_pix_inicial_def)
  have h4: "uso estado_pix_inicial 0 \<le> uso estado_pix_inicial 1 + 1" by code_simp
  have h5: "uso estado_pix_inicial 1 \<le> uso estado_pix_inicial 0 + 1" by code_simp
  have valores: "uso (selecoes chamadas_exemplo estado_pix_inicial) 0 = 1"
      "uso (selecoes chamadas_exemplo estado_pix_inicial) 1 = 2"
    by code_simp+
  show ?thesis using rotacao_justa[OF h1 h2 h3 h4 h5] h2 h4 h5 valores by simp
qed

section \<open>The anti-spam window of the automatic replies\<close>

lemma map_of_registrarResposta:
  "map_of (registrarResposta numero agora m) numero = Some agora"
  unfolding registrarResposta_def
  by (rule map_of_filter_mantem) (simp_all add: map_of_definir)

lemma ultimasRespostas_calado:
  "fst (processarMensagemRecebida detectar mensagem quem agora r st) = None \<Longrightarrow>
     ultimasRespostas (snd (processarMensagemRecebida detectar mensagem quem agora r st))
       = ultimasRespostas st"
  by (auto simp: processarMensagemRecebida_def Let_def split: option.splits if_splits intencao.splits)

lemma ultimasRespostas_respondido:
  "fst (processarMensagemRecebida detectar mensagem quem agora r st) \<noteq> None \<Longrightarrow>
     ultimasRespostas (snd (processarMensagemRecebida detectar mensagem quem agora r st))
       = registrarResposta quem agora (ultimasRespostas st)"
  by (auto simp: processarMensagemRecebida_def Let_def split: option.splits if_splits intencao.splits)

text \<open>The cleanup of \<open>registrarResposta\<close> keeps the entries less than an hour old.\<close>

lemma registrarResposta_outro:
  assumes "map_of m numero = Some u" "quem \<noteq> numero" "agora - u \<le> 60 * 60 * 1000"
  shows "map_of (registrarResposta quem agora m) numero = Some u"
  unfolding registrarResposta_def
  using assms by (intro map_of_filter_mantem) (simp_all add: map_of_definir_outro)

text \<open>
  Between a reply to \<open>numero\<close> at \<open>t1\<close> and the time \<open>t2\<close>, less than two minutes later,
  whatever messages are processed, from whatever senders, the entry of \<open>numero\<close> stays
  in the map, with a time between \<open>t1\<close> and \<open>t2\<close>.
\<close>

lemma resposta_recente_depois:
  assumes "map_of (ultimasRespostas st) numero = Some u" "t1 \<le> u" "u \<le> t2"
    and "t1 \<le> agora" "agora \<le> t2" "t2 - t1 < INTERVALO_MINIMO_RESPOSTA_MS"
  shows "\<exists>u'. map_of (ultimasRespostas
            (snd (processarMensagemRecebida detectar mensagem quem agora r st))) numero = Some u' \<and>
          t1 \<le> u' \<and> u' \<le> t2"
proof (cases "fst (processarMensagemRecebida detectar mensagem quem agora r st) = None")
  case True
  then show ?thesis using assms(1,2,3) by (simp only: ultimasRespostas_calado) blast
next
  case False
  note depois = ultimasRespostas_respondido[OF False]
  show ?thesis
  proof (cases "quem = numero")
    case True
    have "map_of (ultimasRespostas
        (snd (processarMensagemRecebida detectar mensagem quem agora r st))) quem = Some agora"
      by (simp only: depois map_of_registrarResposta)
    then show ?thesis using True assms(4,5) by blast
  next
    case outro: False
    have "agora - u \<le> 60 * 60 * 1000"
      using assms(2,5,6) by (simp add: INTERVALO_MINIMO_RESPOSTA_MS_def)
    from registrarResposta_outro[OF assms(1) outro this]
    show ?thesis using assms(2,3) by (simp only: depois) blast
  qed
qed

lemma resposta_recente_mensagens:
  "map_of (ultimasRespostas st) numero = Some u \<Longrightarrow> t1 \<le> u \<Longrightarrow> u \<le> t2 \<Longrightarrow>
   \<forall>m \<in> set ms. t1 \<le> hora m \<and> hora m \<le> t2 \<Longrightarrow> t2 - t1 < INTERVALO_MINIMO_RESPOSTA_MS \<Longrightarrow>
     \<exists>u'. map_of (ultimasRespostas (processarMensagens detectar ms st)) numero = Some u' \<and>
          t1 \<le> u' \<and> u' \<le> t2"
proof (induction ms arbitrary: st u)
  case Nil
  then show ?case by simp
next
  case (Cons m ms)
  have m: "t1 \<le> hora m" "hora m \<le> t2" using Cons.prems(4) by simp_all
  from resposta_recente_depois[OF Cons.prems(1,2,3) m Cons.prems(5), of detectar "corpo m" "origem m" "acaso m"]
  obtain u' where u': "map_of (ultimasRespostas
            (snd (processarMensagemRecebida detectar (corpo m) (origem m) (hora m) (acaso m) st))) numero = Some u'"
      "t1 \<le> u'" "u' \<le> t2"
    by blast
  have resto: "\<forall>m \<in> set ms. t1 \<le> hora m \<and> hora m \<le> t2" using Cons.prems(4) by simp
  from Cons.IH[OF u' resto Cons.prems(5)] show ?case by simp
qed

lemma bloqueado_na_janela:
  assumes "detectar mensagem \<noteq> Some Pix" "map_of (ultimasRespostas st) numero = Some u" "u \<noteq> 0"
    and "agora - u < INTERVALO_MINIMO_RESPOSTA_MS"
  shows "processarMensagemRecebida detectar mensagem numero agora r st = (None, st)"
  using assms by (auto simp: processarMensagemRecebida_def podeResponder_def split: option.splits)

text \<open>
  C10. An automatic reply is sent to a sender at the clock time \<open>t1\<close> (a positive
  \<open>Date.now()\<close> value). Then any messages are processed, from this sender or others,
  at times from \<open>t1\<close> to \<open>t2\<close>, and at \<open>t2\<close>, less than two minutes after \<open>t1\<close>, comes a
  message of the sender whose intent is not \<open>pix\<close>: it gets no reply and leaves the
  state, the anti-spam map included, as it was. In every state a message whose intent
  is \<open>pix\<close> gets a reply. Whenever no reply is produced the state is unchanged, and
  whenever one is produced the sender's entry holds the time of that call.
\<close>

theorem anti_spam:
  assumes respondida: "fst (processarMensagemRecebida detectar m1 numero t1 r1 st) \<noteq> None"
    and relogio: "0 < t1"
    and entre: "\<forall>m \<in> set ms. t1 \<le> hora m \<and> hora m \<le> t2"
    and dentro: "t2 - t1 < INTERVALO_MINIMO_RESPOSTA_MS"
  shows "let st1 = snd (processarMensagemRecebida detectar m1 numero t1 r1 st);
             st2 = processarMensagens detectar ms st1
         in (detectar m2 \<noteq> Some Pix \<longrightarrow>
               processarMensagemRecebida detectar m2 numero t2 r2 st2 = (None, st2)) \<and>
            (detectar mensagem = Some Pix \<longrightarrow>
               fst (processarMensagemRecebida detectar mensagem quem agora r e) \<noteq> None) \<and>
            (fst (processarMensagemRecebida detectar mensagem quem agora r e) = None \<longrightarrow>
               snd (processarMensagemRecebida detectar mensagem quem agora r e) = e) \<and>
            (fst (processarMensagemRecebida detectar mensagem quem agora r e) \<noteq> None \<longrightarrow>
               map_of (ultimasRespostas
                 (snd (processarMensagemRecebida detectar mensagem quem agora r e))) quem
                 = Some agora)"
proof -
  define st1 where "st1 = snd (processarMensagemRecebida detectar m1 numero t1 r1 st)"
  define st2 where "st2 = processarMensagens detectar ms st1"
  have primeira: "map_of (ultimasRespostas st1) numero = Some t1"
    unfolding st1_def by (simp only: ultimasRespostas_respondido[OF respondida] map_of_registrarResposta)
  have "t1 \<le> t2 \<or> ms = []" using entre by (cases ms) auto
  then have "\<exists>u. map_of (ultimasRespostas st2) numero = Some u \<and> t1 \<le> u"
  proof
    assume "t1 \<le> t2"
    then have "\<exists>u'. map_of (ultimasRespostas st2) numero = Some u' \<and> t1 \<le> u' \<and> u' \<le> t2"
      unfolding st2_def by (intro resposta_recente_mensagens[OF primeira _ _ entre dentro]) simp_all
    then show ?thesis by blast
  next
    assume "ms = []"
    then show ?thesis using primeira by (simp add: st2_def)
  qed
  then obtain u where u: "map_of (ultimasRespostas st2) numero = Some u" "t1 \<le> u" by blast
  have "u \<noteq> 0" using u(2) relogio by simp
  moreover have "t2 - u < INTERVALO_MINIMO_RESPOSTA_MS" using u(2) dentro by simp
  ultimately have bloqueado: "processarMensagemRecebida detectar m2 numero t2 r2 st2 = (None, st2)"
    if "detectar m2 \<noteq> Some Pix"
    using that u(1) by (intro bloqueado_na_janela)
  have pix: "fst (processarMensagemRecebida detectar mensagem quem agora r e) \<noteq> None"
    if "detectar mensagem = Some Pix"
    using that by (simp add: processarMensagemRecebida_def Let_def)
  have calado: "snd (processarMensagemRecebida detectar mensagem quem agora r e) = e"
    if "fst (processarMensagemRecebida detectar mensagem quem agora r e) = None"
    using that
    by (auto simp: processarMensagemRecebida_def Let_def split: option.splits if_splits intencao.splits)
  have registrado: "map_of (ultimasRespostas
        (snd (processarMensagemRecebida detectar mensagem quem agora r e))) quem = Some agora"
    if "fst (processarMensagemRecebida detectar mensagem quem agora r e) \<noteq> None"
    by (simp only: ultimasRespostas_respondido[OF that] map_of_registrarResposta)
  show ?thesis
    unfolding Let_def st1_def[symmetric] st2_def[symmetric]
    using bloqueado pix calado registrado by blast
qed

theorem anti_spam_witness:
  "fst (processarMensagemRecebida detectar_exemplo ''oi'' numero_exemplo 5000 0 estado_respostas_inicial)
     \<noteq> None \<and>
   (0 :: int) < 5000 \<and>
   5000 \<le> hora (hd mensagens_entre) \<and> hora (hd mensagens_entre) \<le> 7000 \<and>
   origem (hd mensagens_entre) \<noteq> numero_exemplo \<and>
   map_of (ultimasRespostas (processarMensagens detectar_exemplo mensagens_entre
      (snd (processarMensagemRecebida detectar_exemplo ''oi'' numero_exemplo 5000 0
         estado_respostas_inicial)))) (origem (hd mensagens_entre)) = Some 6000 \<and>
   (7000 :: int) - 5000 < INTERVALO_MINIMO_RESPOSTA_MS \<and>
   detectar_exemplo ''que horas abre'' \<noteq> Some Pix \<and>
   processarMensagemRecebida detectar_exemplo ''que horas abre'' numero_exemplo 7000 0
      (processarMensagens detectar_exemplo mensagens_entre
        (snd (processarMensagemRecebida detectar_exemplo ''oi'' numero_exemplo 5000 0
           estado_respostas_inicial)))
     = (None, processarMensagens detectar_exemplo mensagens_entre
        (snd (processarMensagemRecebida detectar_exemplo ''oi'' numero_exemplo 5000 0
           estado_respostas_inicial))) \<and>
   detectar_exemplo ''qual o pix'' = Some Pix \<and>
   fst (processarMensagemRecebida detectar_exemplo ''qual o pix'' numero_exemplo 7000 0
      (processarMensagens detectar_exemplo mensagens_entre
        (snd (processarMensagemRecebida detectar_exemplo ''oi'' numero_exemplo 5000 0
           estado_respostas_inicial))))
     \<noteq> None"
proof -
  define s1 where "s1 = snd (processarMensagemRecebida detectar_exemplo ''oi'' numero_exemplo 5000 0
           estado_respostas_inicial)"
  define s2 where "s2 = processarMensagens detectar_exemplo mensagens_entre s1"
  have h1: "fst (processarMensagemRecebida detectar_exemplo ''oi'' numero_exemplo 5000 0
      estado_respostas_inicial) \<noteq> None"
    by (simp add: processarMensagemRecebida_def detectar_exemplo_def podeResponder_def
        estado_respostas_inicial_def Let_def)
  have h2: "(0 :: int) < 5000" by simp
  have um: "mensagens_entre = [hd mensagens_entre]" by (simp add: mensagens_entre_def)
  have h3a: "5000 \<le> hora (hd mensagens_entre)" "hora (hd mensagens_entre) \<le> 7000"
    by (simp_all add: mensagens_entre_def)
  have h3: "\<forall>m \<in> set mensagens_entre. 5000 \<le> hora m \<and> hora m \<le> 7000"
    using h3a by (subst um) simp
  have h4: "(7000 :: int) - 5000 < INTERVALO_MINIMO_RESPOSTA_MS"
    by (simp add: INTERVALO_MINIMO_RESPOSTA_MS_def)
  have h5: "detectar_exemplo ''que horas abre'' \<noteq> Some Pix" by (simp add: detectar_exemplo_def)
  have h6: "detectar_exemplo ''qual o pix'' = Some Pix" by (simp add: detectar_exemplo_def)
  have h7: "origem (hd mensagens_entre) \<noteq> numero_exemplo"
    by (simp add: mensagens_entre_def numero_exemplo_def)
  have h8: "map_of (ultimasRespostas s2) (origem (hd mensagens_entre)) = Some 6000"
    unfolding s2_def s1_def
    by (simp add: mensagens_entre_def numero_exemplo_def processarMensagemRecebida_def
        detectar_exemplo_def podeResponder_def estado_respostas_inicial_def registrarResposta_def
        Let_def)
  have a: "processarMensagemRecebida detectar_exemplo ''que horas abre'' numero_exemplo 7000 0 s2 = (None, s2)"
    using anti_spam[OF h1 h2 h3 h4, where ?m2.0 = "''que horas abre''" and ?r2.0 = 0] h5
    unfolding Let_def s1_def[symmetric] s2_def[symmetric] by blast
  have b: "fst (processarMensagemRecebida detectar_exemplo ''qual o pix'' numero_exemplo 7000 0 s2) \<noteq> None"
    using anti_spam[OF h1 h2 h3 h4, where mensagem = "''qual o pix''" and quem = numero_exemplo
        and agora = 7000 and r = 0 and e = s2] h6
    unfolding Let_def by blast
  show ?thesis
    using h1 h2 h3a h4 h5 h6 h7 h8 a b unfolding s1_def[symmetric] s2_def[symmetric] by blast
qed


section \<open>Overlapping ticks\<close>

lemma retomar_moldura:
  "length (em_voo (retomar i ps ex)) = length (em_voo ex) \<and>
   (j \<noteq> i \<longrightarrow> em_voo (retomar i ps ex) ! j = em_voo ex ! j \<and>
                do_tique j (registro (retomar i ps ex)) = do_tique j (registro ex))"
  by (induction i ps ex rule: retomar.induct) (simp_all add: do_tique_def)

lemma pares_snoc:
  "pares amb i (qs @ [p]) = pares amb i qs @ [Chama i p, Conclui i p (processarNovoPedido amb p)]"
  by (simp add: pares_def)

lemma subseq_sem_meio: "subseq (qs @ p # ps) lote \<Longrightarrow> subseq (qs @ ps) lote"
proof -
  assume a: "subseq (qs @ p # ps) lote"
  have "subseq ps (p # ps)" by (simp add: list_emb_Cons)
  then have "subseq (qs @ ps) (qs @ p # ps)" by (simp add: subseq_append')
  then show ?thesis using a by (rule subseq_order.trans)
qed

lemma retomar_coerente:
  "i < length (em_voo ex) \<Longrightarrow> do_tique i (registro ex) = Recebe i lote # pares amb i qs \<Longrightarrow>
   subseq (qs @ ps) lote \<Longrightarrow>
     coerente amb i (em_voo (retomar i ps ex) ! i) (do_tique i (registro (retomar i ps ex)))"
proof (induction i ps ex rule: retomar.induct)
  case (1 i ex)
  then show ?case by (auto simp: coerente_def)
next
  case (2 i p ps ex)
  show ?case
  proof (cases "id_pedido p \<in> set (pedidosProcessados (sonda ex))")
    case True
    have "subseq (qs @ ps) lote" using "2.prems"(3) by (rule subseq_sem_meio)
    then show ?thesis using True "2.IH" "2.prems"(1,2) by simp
  next
    case False
    then show ?thesis using "2.prems" by (auto simp: coerente_def do_tique_def)
  qed
qed

lemma do_tique_snoc: "do_tique i (ms @ [m]) = (if dono m = i then do_tique i ms @ [m] else do_tique i ms)"
  by (simp add: do_tique_def)

lemma invariante_de:
  assumes "invariante amb ex"
  shows "if i < length (em_voo ex) then coerente amb i (em_voo ex ! i) (do_tique i (registro ex))
         else do_tique i (registro ex) = []"
  using assms unfolding invariante_def by (rule spec)

lemma retomar_invariante:
  assumes inv: "\<forall>j. j \<noteq> i \<longrightarrow>
      (if j < length (em_voo ex) then coerente amb j (em_voo ex ! j) (do_tique j (registro ex))
       else do_tique j (registro ex) = [])"
    and i: "i < length (em_voo ex)"
    and reg: "do_tique i (registro ex) = Recebe i lote # pares amb i qs"
    and sub: "subseq (qs @ ps) lote"
  shows "invariante amb (retomar i ps ex)"
  unfolding invariante_def
proof
  fix j
  show "if j < length (em_voo (retomar i ps ex))
        then coerente amb j (em_voo (retomar i ps ex) ! j) (do_tique j (registro (retomar i ps ex)))
        else do_tique j (registro (retomar i ps ex)) = []"
  proof (cases "j = i")
    case True
    then show ?thesis using retomar_coerente[OF i reg sub] retomar_moldura[of i ps ex j] i by simp
  next
    case False
    then show ?thesis using inv retomar_moldura[of i ps ex j] by simp
  qed
qed

lemma resto_invariante:
  assumes "invariante amb ex" "j \<noteq> i" "dono m = i"
  shows "if j < length (em_voo ex) then coerente amb j (em_voo ex ! j) (do_tique j (registro ex @ [m]))
         else do_tique j (registro ex @ [m]) = []"
  using invariante_de[OF assms(1), of j] assms(2,3) by (simp add: do_tique_snoc)

lemma passo_invariante:
  assumes inv: "invariante amb ex"
  shows "invariante amb (passo amb ev ex)"
proof (cases ev)
  case Temporizador
  show ?thesis
  proof (cases "lojaFechadaPeloAdmin (sonda ex)")
    case True
    then show ?thesis using inv Temporizador by (simp add: passo_def)
  next
    case False
    have "\<forall>i. if i < length (em_voo ex @ [AguardaConsulta (ultimoPedidoProcessado (sonda ex))])
        then coerente amb i ((em_voo ex @ [AguardaConsulta (ultimoPedidoProcessado (sonda ex))]) ! i)
               (do_tique i (registro ex))
        else do_tique i (registro ex) = []"
    proof
      fix i
      consider "i < length (em_voo ex)" | "i = length (em_voo ex)" | "i > length (em_voo ex)"
        by linarith
      then show "if i < length (em_voo ex @ [AguardaConsulta (ultimoPedidoProcessado (sonda ex))])
        then coerente amb i ((em_voo ex @ [AguardaConsulta (ultimoPedidoProcessado (sonda ex))]) ! i)
               (do_tique i (registro ex))
        else do_tique i (registro ex) = []"
      proof cases
        case 1
        then show ?thesis using invariante_de[OF inv, of i] by (simp add: nth_append)
      next
        case 2
        then have "do_tique i (registro ex) = []" using invariante_de[OF inv, of i] by simp
        then show ?thesis using 2 by (simp add: coerente_def)
      next
        case 3
        then show ?thesis using invariante_de[OF inv, of i] by simp
      qed
    qed
    then show ?thesis using False Temporizador by (simp add: passo_def invariante_def)
  qed
next
  case (RespostaConsulta i r)
  show ?thesis
  proof (cases "i < length (em_voo ex)")
    case False
    then show ?thesis using inv RespostaConsulta by (simp add: passo_def)
  next
    case True
    note i = True
    show ?thesis
    proof (cases "em_voo ex ! i")
      case (AguardaConsulta c)
      have vazio: "do_tique i (registro ex) = []"
        using invariante_de[OF inv, of i] i AguardaConsulta by (simp add: coerente_def)
      show ?thesis
      proof (cases r)
        case Erro
        have "\<forall>j. if j < length ((em_voo ex)[i := Terminado])
            then coerente amb j ((em_voo ex)[i := Terminado] ! j) (do_tique j (registro ex))
            else do_tique j (registro ex) = []"
        proof
          fix j
          show "if j < length ((em_voo ex)[i := Terminado])
            then coerente amb j ((em_voo ex)[i := Terminado] ! j) (do_tique j (registro ex))
            else do_tique j (registro ex) = []"
          proof (cases "j = i")
            case True
            then show ?thesis using vazio i by (simp add: coerente_def)
          next
            case False
            then show ?thesis using invariante_de[OF inv, of j] by simp
          qed
        qed
        then show ?thesis using RespostaConsulta i AguardaConsulta Erro
          by (simp add: passo_def invariante_def)
      next
        case (Dados lote)
        let ?ex = "ex\<lparr>registro := registro ex @ [Recebe i lote]\<rparr>"
        have outros: "\<forall>j. j \<noteq> i \<longrightarrow>
            (if j < length (em_voo ?ex) then coerente amb j (em_voo ?ex ! j) (do_tique j (registro ?ex))
             else do_tique j (registro ?ex) = [])"
          using resto_invariante[OF inv, of _ i "Recebe i lote"] by simp
        have reg: "do_tique i (registro ?ex) = Recebe i lote # pares amb i []"
          using vazio by (simp add: do_tique_snoc pares_def)
        have "invariante amb (retomar i lote ?ex)"
          by (rule retomar_invariante[OF outros _ reg]) (simp_all add: i)
        then show ?thesis using RespostaConsulta i AguardaConsulta Dados by (simp add: passo_def)
      qed
    next
      case (AguardaDespacho p ps)
      then show ?thesis using inv RespostaConsulta i by (simp add: passo_def)
    next
      case Terminado
      then show ?thesis using inv RespostaConsulta i by (simp add: passo_def)
    qed
  qed
next
  case (FimDespacho i)
  show ?thesis
  proof (cases "i < length (em_voo ex)")
    case False
    then show ?thesis using inv FimDespacho by (simp add: passo_def)
  next
    case True
    note i = True
    show ?thesis
    proof (cases "em_voo ex ! i")
      case (AguardaConsulta c)
      then show ?thesis using inv FimDespacho i by (simp add: passo_def)
    next
      case Terminado
      then show ?thesis using inv FimDespacho i by (simp add: passo_def)
    next
      case (AguardaDespacho p ps)
      have "coerente amb i (AguardaDespacho p ps) (do_tique i (registro ex))"
        using invariante_de[OF inv, of i] i AguardaDespacho by simp
      then obtain lote qs where
        ms: "do_tique i (registro ex) = Recebe i lote # pares amb i qs @ [Chama i p]"
        and sub: "subseq (qs @ p # ps) lote"
        by (auto simp: coerente_def)
      let ?m = "Conclui i p (processarNovoPedido amb p)"
      let ?ex = "ex\<lparr>sonda := (sonda ex)
                          \<lparr>pedidosProcessados :=
                             limparExcedente (adicionar (id_pedido p) (pedidosProcessados (sonda ex))),
                           ultimoPedidoProcessado := created_at p\<rparr>,
                        registro := registro ex @ [?m]\<rparr>"
      have outros: "\<forall>j. j \<noteq> i \<longrightarrow>
            (if j < length (em_voo ?ex) then coerente amb j (em_voo ?ex ! j) (do_tique j (registro ?ex))
             else do_tique j (registro ?ex) = [])"
        using resto_invariante[OF inv, of _ i ?m] by simp
      have reg: "do_tique i (registro ?ex) = Recebe i lote # pares amb i (qs @ [p])"
        using ms by (simp add: do_tique_snoc pares_snoc)
      have sub': "subseq ((qs @ [p]) @ ps) lote" using sub by simp
      show ?thesis
      proof (cases "lancou (processarNovoPedido amb p)")
        case None
        have "invariante amb (retomar i ps ?ex)"
          by (rule retomar_invariante[OF outros _ reg sub']) (simp add: i)
        then show ?thesis using FimDespacho i AguardaDespacho None by (simp add: passo_def Let_def)
      next
        case (Some e)
        let ?fim = "ex\<lparr>em_voo := (em_voo ex)[i := Terminado], registro := registro ex @ [?m]\<rparr>"
        have "subseq (qs @ [p]) (qs @ p # ps)" by (rule list_emb_append_mono) simp_all
        then have sub'': "subseq (qs @ [p]) lote" using sub by (rule subseq_order.order_trans)
        have reg': "do_tique i (registro ?fim) = Recebe i lote # pares amb i (qs @ [p])"
          using ms by (simp add: do_tique_snoc pares_snoc)
        have "invariante amb ?fim"
          unfolding invariante_def
        proof
          fix j
          show "if j < length (em_voo ?fim)
            then coerente amb j (em_voo ?fim ! j) (do_tique j (registro ?fim))
            else do_tique j (registro ?fim) = []"
          proof (cases "j = i")
            case True
            have "coerente amb i Terminado (do_tique i (registro ?fim))"
              unfolding coerente_def using reg' sub'' by auto
            then show ?thesis using True i by simp
          next
            case False
            then show ?thesis using resto_invariante[OF inv False, of ?m] by simp
          qed
        qed
        then show ?thesis using FimDespacho i AguardaDespacho Some by (simp add: passo_def Let_def)
      qed
    qed
  qed
qed

lemma executar_invariante: "invariante amb ex \<Longrightarrow> invariante amb (executar amb evs ex)"
  by (induction evs arbitrary: ex) (simp_all add: passo_invariante)

lemma invariante_inicial: "invariante amb (execucao_inicial st)"
  by (simp add: invariante_def execucao_inicial_def do_tique_def)

lemma alternado_pares: "alternado (pares amb i qs)" "alternado (pares amb i qs @ [Chama i p])"
  by (induction qs) (simp_all add: pares_def)

lemma chamados_pares: "chamados (pares amb i qs @ ms) = qs @ chamados ms"
  by (induction qs) (simp_all add: pares_def)

lemma chamados_do_tique_pares: "chamados (pares amb i qs) = qs"
  using chamados_pares[of amb i qs "[]"] by simp

lemma recebe_pares: "Recebe i lote \<notin> set (pares amb j qs)"
  by (induction qs) (simp_all add: pares_def)

lemma subseq_ordenado:
  assumes "subseq xs ys" "sorted (map created_at ys)"
  shows "sorted (map created_at xs)"
proof -
  have "subseq (map created_at xs) (map created_at ys)" using assms(1) by (rule subseq_map)
  then obtain N where "map created_at xs = nths (map created_at ys) N"
    using subseq_conv_nths by blast
  then show ?thesis using assms(2) by (simp add: sorted_nths)
qed

lemma coerente_consequencias:
  assumes "coerente amb i f ms"
  shows "sequencial ms"
    and "Recebe i lote \<in> set ms \<Longrightarrow> subseq (chamados ms) lote"
proof -
  show "sequencial ms"
    using assms by (auto simp: coerente_def alternado_pares split: fase.splits)
  assume r: "Recebe i lote \<in> set ms"
  show "subseq (chamados ms) lote"
  proof (cases f)
    case (AguardaConsulta c)
    then show ?thesis using assms r by (simp add: coerente_def)
  next
    case (AguardaDespacho p ps)
    then obtain lote' qs where ms: "ms = Recebe i lote' # pares amb i qs @ [Chama i p]"
      and sub: "subseq (qs @ p # ps) lote'"
      using assms by (auto simp: coerente_def)
    have "lote = lote'" using r ms recebe_pares[of i lote amb i qs] by auto
    moreover have "chamados ms = qs @ [p]" by (simp add: ms chamados_pares)
    moreover have "subseq (qs @ [p]) (qs @ p # ps)" by (simp add: subseq_append')
    ultimately show ?thesis using sub subseq_order.trans by metis
  next
    case Terminado
    then obtain lote' qs where ms: "ms = Recebe i lote' # pares amb i qs" and sub: "subseq qs lote'"
      using assms r by (auto simp: coerente_def)
    have "lote = lote'" using r ms recebe_pares[of i lote amb i qs] by auto
    moreover have "chamados ms = qs" by (simp add: ms chamados_do_tique_pares)
    ultimately show ?thesis using sub by simp
  qed
qed

lemma recebe_do_tique: "Recebe i lote \<in> set (do_tique i ms) \<longleftrightarrow> Recebe i lote \<in> set ms"
  by (auto simp: do_tique_def)

text \<open>
  C4 (as amended). The poller has no in-progress flag: with the store open, the timer
  starts a new call of \<open>verificarNovosPedidos\<close> whatever calls are in flight, also one
  that awaits a dispatch. Within one call, in every run, each \<open>processarNovoPedido\<close>
  returns before the next one is called, and the orders dispatched are a subsequence,
  in order, of the batch the call received: ascending by \<open>created_at\<close> when the batch is.
\<close>

theorem tiques_sem_trava:
  "(\<not> lojaFechadaPeloAdmin (sonda ex) \<longrightarrow>
      em_voo (passo amb Temporizador ex) =
        em_voo ex @ [AguardaConsulta (ultimoPedidoProcessado (sonda ex))]) \<and>
   sequencial (do_tique i (registro (executar amb evs (execucao_inicial st)))) \<and>
   (\<forall>lote. Recebe i lote \<in> set (registro (executar amb evs (execucao_inicial st))) \<longrightarrow>
      subseq (chamados (do_tique i (registro (executar amb evs (execucao_inicial st))))) lote \<and>
      (sorted (map created_at lote) \<longrightarrow>
         sorted (map created_at
           (chamados (do_tique i (registro (executar amb evs (execucao_inicial st))))))))"
proof -
  define ex' where "ex' = executar amb evs (execucao_inicial st)"
  have inv: "invariante amb ex'"
    unfolding ex'_def by (intro executar_invariante invariante_inicial)
  have seq: "sequencial (do_tique i (registro ex'))"
  proof (cases "i < length (em_voo ex')")
    case True
    then show ?thesis using invariante_de[OF inv, of i] coerente_consequencias(1) by auto
  next
    case False
    then show ?thesis using invariante_de[OF inv, of i] by simp
  qed
  have sub: "subseq (chamados (do_tique i (registro ex'))) lote"
    if "Recebe i lote \<in> set (registro ex')" for lote
  proof (cases "i < length (em_voo ex')")
    case True
    then have "coerente amb i (em_voo ex' ! i) (do_tique i (registro ex'))"
      using invariante_de[OF inv, of i] by simp
    then show ?thesis using that coerente_consequencias(2) recebe_do_tique by blast
  next
    case False
    then have "do_tique i (registro ex') = []" using invariante_de[OF inv, of i] by simp
    then show ?thesis by simp
  qed
  have "em_voo (passo amb Temporizador ex) =
        em_voo ex @ [AguardaConsulta (ultimoPedidoProcessado (sonda ex))]"
    if "\<not> lojaFechadaPeloAdmin (sonda ex)"
    using that by (simp add: passo_def)
  then show ?thesis
    unfolding ex'_def[symmetric] using seq sub subseq_ordenado by blast
qed

lemmas corrida_defs = corrida_exemplo_def execucao_inicial_def passo_def consultarPedidos_def
  novosPedidosDe_def LIMITE_CONSULTA_def adicionar_def limparExcedente_def MAX_PEDIDOS_CACHE_def
  exemplos despacho_defs Let_def do_tique_def

theorem tiques_sem_trava_witness:
  "\<not> lojaFechadaPeloAdmin (sonda (executar exemplo_ambiente (take 2 corrida_exemplo)
       (execucao_inicial sondagem_inicial))) \<and>
   em_voo (passo exemplo_ambiente Temporizador
      (executar exemplo_ambiente (take 2 corrida_exemplo) (execucao_inicial sondagem_inicial)))
     = [AguardaDespacho exemplo_pedido [], AguardaConsulta 0] \<and>
   Recebe 1 [exemplo_pedido] \<in> set (registro
      (executar exemplo_ambiente corrida_exemplo (execucao_inicial sondagem_inicial))) \<and>
   sorted (map created_at [exemplo_pedido]) \<and>
   sequencial (do_tique 1 (registro
      (executar exemplo_ambiente corrida_exemplo (execucao_inicial sondagem_inicial)))) \<and>
   subseq (chamados (do_tique 1 (registro
      (executar exemplo_ambiente corrida_exemplo (execucao_inicial sondagem_inicial))))) [exemplo_pedido]"
proof -
  have a: "\<not> lojaFechadaPeloAdmin (sonda (executar exemplo_ambiente (take 2 corrida_exemplo)
       (execucao_inicial sondagem_inicial)))"
    by (simp add: corrida_defs)
  have b: "em_voo (executar exemplo_ambiente (take 2 corrida_exemplo) (execucao_inicial sondagem_inicial))
      = [AguardaDespacho exemplo_pedido []]"
    by (simp add: corrida_defs)
  have c: "ultimoPedidoProcessado (sonda (executar exemplo_ambiente (take 2 corrida_exemplo)
       (execucao_inicial sondagem_inicial))) = 0"
    by (simp add: corrida_defs)
  have d: "Recebe 1 [exemplo_pedido] \<in> set (registro
      (executar exemplo_ambiente corrida_exemplo (execucao_inicial sondagem_inicial)))"
    by (simp add: corrida_defs)
  have e: "sorted (map created_at [exemplo_pedido])" by simp
  show ?thesis
    using tiques_sem_trava[of
        "executar exemplo_ambiente (take 2 corrida_exemplo) (execucao_inicial sondagem_inicial)"
        exemplo_ambiente 1 corrida_exemplo sondagem_inicial] a b c d e
    by simp
qed

text \<open>
  The timer fires while call 0 awaits the dispatch of the order \<open>a1\<close>: call 1 starts,
  is answered with the same row, since the cursor has not moved yet, and dispatches
  \<open>a1\<close> a second time before the first dispatch has returned.
\<close>

theorem tiques_sem_trava_counterexample:
  "em_voo (executar exemplo_ambiente (take 3 corrida_exemplo) (execucao_inicial sondagem_inicial))
     = [AguardaDespacho exemplo_pedido [], AguardaConsulta 0] \<and>
   map id_pedido (chamados (do_tique 0 (registro
      (executar exemplo_ambiente corrida_exemplo (execucao_inicial sondagem_inicial))))) = [''a1''] \<and>
   map id_pedido (chamados (do_tique 1 (registro
      (executar exemplo_ambiente corrida_exemplo (execucao_inicial sondagem_inicial))))) = [''a1''] \<and>
   map dono (registro
      (executar exemplo_ambiente corrida_exemplo (execucao_inicial sondagem_inicial)))
     = [0, 0, 1, 1, 0, 1]"
  by (simp add: corrida_defs)

section \<open>A tick that runs alone\<close>

text \<open>
  When no other event comes between the pieces of a call, the call leaves the poller
  in the state \<open>verificarNovosPedidos\<close> computes, and dispatches the same orders in the
  same order.
\<close>

lemma executar_terminado:
  "i < length (em_voo ex) \<Longrightarrow> em_voo ex ! i = Terminado \<Longrightarrow>
     executar amb (replicate k (FimDespacho i)) ex = ex"
  by (induction k) (simp_all add: passo_def)

lemma processarPedido_acumula:
  assumes "capturado t = None"
  shows "processarPedido amb p t =
     \<lparr>estado = estado (processarPedido amb p (novo_tique (estado t))),
      consultou = consultou t,
      despachos = despachos t @ despachos (processarPedido amb p (novo_tique (estado t))),
      capturado = capturado (processarPedido amb p (novo_tique (estado t)))\<rparr>"
proof (cases rule: processarPedido_casos[where p = p and t = t and amb = amb])
  case duplicado
  then show ?thesis using assms by (simp add: processarPedido_def novo_tique_def Let_def)
next
  case (lancou e)
  then show ?thesis using assms by (simp add: processarPedido_def novo_tique_def Let_def)
next
  case retornou
  then show ?thesis using assms by (simp add: processarPedido_def novo_tique_def Let_def)
qed

lemma processarLote_acumula:
  "capturado t = None \<Longrightarrow>
   processarLote amb ps t =
     \<lparr>estado = estado (processarLote amb ps (novo_tique (estado t))),
      consultou = consultou t,
      despachos = despachos t @ despachos (processarLote amb ps (novo_tique (estado t))),
      capturado = capturado (processarLote amb ps (novo_tique (estado t)))\<rparr>"
proof (induction ps arbitrary: t)
  case Nil
  then show ?case by (simp add: novo_tique_def)
next
  case (Cons p ps)
  let ?a = "processarPedido amb p t"
  let ?b = "processarPedido amb p (novo_tique (estado t))"
  note a = processarPedido_acumula[OF Cons.prems, of amb p]
  have ab: "estado ?a = estado ?b" "consultou ?a = consultou t"
      "despachos ?a = despachos t @ despachos ?b" "capturado ?a = capturado ?b"
    using a by (metis tique.select_convs(1), metis tique.select_convs(2),
        metis tique.select_convs(3), metis tique.select_convs(4))
  show ?case
  proof (cases "capturado ?b = None")
    case False
    then have "processarLote amb (p # ps) t = ?a"
        "processarLote amb (p # ps) (novo_tique (estado t)) = ?b"
      using ab(4) by (simp_all add: Let_def)
    then show ?thesis using a by simp
  next
    case True
    then have livre: "capturado ?a = None" using ab(4) by simp
    have "processarLote amb (p # ps) t = processarLote amb ps ?a" using livre by (simp add: Let_def)
    also have "\<dots> = \<lparr>estado = estado (processarLote amb ps (novo_tique (estado ?a))),
        consultou = consultou ?a,
        despachos = despachos ?a @ despachos (processarLote amb ps (novo_tique (estado ?a))),
        capturado = capturado (processarLote amb ps (novo_tique (estado ?a)))\<rparr>"
      using livre by (rule Cons.IH)
    finally have esq: "processarLote amb (p # ps) t =
       \<lparr>estado = estado (processarLote amb ps (novo_tique (estado ?b))),
        consultou = consultou t,
        despachos = despachos t @ despachos ?b @ despachos (processarLote amb ps (novo_tique (estado ?b))),
        capturado = capturado (processarLote amb ps (novo_tique (estado ?b)))\<rparr>"
      by (simp add: ab)
    have "processarLote amb (p # ps) (novo_tique (estado t)) = processarLote amb ps ?b"
      using True by (simp add: Let_def)
    also have "\<dots> = \<lparr>estado = estado (processarLote amb ps (novo_tique (estado ?b))),
        consultou = consultou ?b,
        despachos = despachos ?b @ despachos (processarLote amb ps (novo_tique (estado ?b))),
        capturado = capturado (processarLote amb ps (novo_tique (estado ?b)))\<rparr>"
      using True by (rule Cons.IH)
    finally have dir: "estado (processarLote amb (p # ps) (novo_tique (estado t)))
          = estado (processarLote amb ps (novo_tique (estado ?b)))"
        "despachos (processarLote amb (p # ps) (novo_tique (estado t)))
          = despachos ?b @ despachos (processarLote amb ps (novo_tique (estado ?b)))"
        "capturado (processarLote amb (p # ps) (novo_tique (estado t)))
          = capturado (processarLote amb ps (novo_tique (estado ?b)))"
      by simp_all
    show ?thesis unfolding esq dir by simp
  qed
qed

lemma chamados_append: "chamados (xs @ ys) = chamados xs @ chamados ys"
  by (induction xs rule: chamados.induct) simp_all

lemma retomar_sozinho:
  "i < length (em_voo ex) \<Longrightarrow> length ps \<le> k \<Longrightarrow>
     sonda (executar amb (replicate k (FimDespacho i)) (retomar i ps ex))
       = estado (processarLote amb ps (novo_tique (sonda ex))) \<and>
     chamados (registro (executar amb (replicate k (FimDespacho i)) (retomar i ps ex)))
       = chamados (registro ex) @ map fst (despachos (processarLote amb ps (novo_tique (sonda ex))))"
proof (induction ps arbitrary: ex k)
  case Nil
  then show ?case by (simp add: executar_terminado novo_tique_def)
next
  case (Cons p ps)
  let ?b = "processarPedido amb p (novo_tique (sonda ex))"
  let ?d = "processarNovoPedido amb p"
  have estado_novo: "estado (novo_tique (sonda ex)) = sonda ex" by (simp add: novo_tique_def)
  show ?case
  proof (cases rule: processarPedido_casos[where p = p and t = "novo_tique (sonda ex)" and amb = amb])
    case duplicado
    then have dup: "id_pedido p \<in> set (pedidosProcessados (sonda ex))" by (simp add: novo_tique_def)
    let ?ex = "ex\<lparr>sonda := (sonda ex)\<lparr>ultimoPedidoProcessado := created_at p\<rparr>\<rparr>"
    have b: "estado ?b = sonda ?ex" "despachos ?b = []" "capturado ?b = None"
      using dup by (simp_all add: processarPedido_def novo_tique_def Let_def)
    have lote: "processarLote amb (p # ps) (novo_tique (sonda ex)) = processarLote amb ps ?b"
      using b(3) by (simp add: Let_def)
    note ac = processarLote_acumula[OF b(3), of amb ps]
    have lote': "estado (processarLote amb ps ?b) = estado (processarLote amb ps (novo_tique (sonda ?ex)))"
        "despachos (processarLote amb ps ?b) = despachos (processarLote amb ps (novo_tique (sonda ?ex)))"
      using ac b(1,2) by (metis tique.select_convs(1), metis append_Nil tique.select_convs(3))
    have "i < length (em_voo ?ex)" "length ps \<le> k" using Cons.prems by simp_all
    from Cons.IH[OF this] show ?thesis using dup unfolding lote lote' by simp
  next
    case (lancou e)
    then have novo: "id_pedido p \<notin> set (pedidosProcessados (sonda ex))" by (simp add: novo_tique_def)
    obtain k' where k: "k = Suc k'" using Cons.prems(2) by (cases k) auto
    let ?ex = "ex\<lparr>em_voo := (em_voo ex)[i := Terminado],
                registro := registro ex @ [Chama i p] @ [Conclui i p ?d]\<rparr>"
    have b: "estado ?b = sonda ex" "despachos ?b = [(p, ?d)]" "capturado ?b \<noteq> None"
      using novo lancou(2) by (simp_all add: processarPedido_def novo_tique_def Let_def)
    have lote: "processarLote amb (p # ps) (novo_tique (sonda ex)) = ?b"
      using b(3) by (simp add: Let_def)
    have passo1: "passo amb (FimDespacho i) (retomar i (p # ps) ex) = ?ex"
      using novo lancou(2) Cons.prems(1) by (simp add: passo_def)
    have fim: "executar amb (replicate k' (FimDespacho i)) ?ex = ?ex"
      using Cons.prems(1) by (intro executar_terminado) simp_all
    show ?thesis unfolding lote b k using passo1 fim
      by (simp add: chamados_append del: retomar.simps)
  next
    case retornou
    then have novo: "id_pedido p \<notin> set (pedidosProcessados (sonda ex))" by (simp add: novo_tique_def)
    obtain k' where k: "k = Suc k'" using Cons.prems(2) by (cases k) auto
    let ?ex = "ex\<lparr>em_voo := (em_voo ex)[i := AguardaDespacho p ps],
                sonda := (sonda ex)
                  \<lparr>pedidosProcessados :=
                     limparExcedente (adicionar (id_pedido p) (pedidosProcessados (sonda ex))),
                   ultimoPedidoProcessado := created_at p\<rparr>,
                registro := registro ex @ [Chama i p] @ [Conclui i p ?d]\<rparr>"
    have b: "estado ?b = sonda ?ex" "despachos ?b = [(p, ?d)]" "capturado ?b = None"
      using novo retornou(2) by (simp_all add: processarPedido_def novo_tique_def Let_def)
    have lote: "processarLote amb (p # ps) (novo_tique (sonda ex)) = processarLote amb ps ?b"
      using b(3) by (simp add: Let_def)
    note ac = processarLote_acumula[OF b(3), of amb ps]
    have lote': "estado (processarLote amb ps ?b) = estado (processarLote amb ps (novo_tique (sonda ?ex)))"
        "despachos (processarLote amb ps ?b)
           = (p, ?d) # despachos (processarLote amb ps (novo_tique (sonda ?ex)))"
      using ac b(1,2) by (metis tique.select_convs(1), metis append_Cons append_Nil tique.select_convs(3))
    have passo1: "passo amb (FimDespacho i) (retomar i (p # ps) ex) = retomar i ps ?ex"
      using novo retornou(2) Cons.prems(1) by (simp add: passo_def)
    have "i < length (em_voo ?ex)" "length ps \<le> k'" using Cons.prems k by simp_all
    from Cons.IH[OF this] show ?thesis
      unfolding lote lote' k using passo1 by (simp add: chamados_append del: retomar.simps)
  qed
qed

lemma tique_sozinho:
  assumes "\<not> lojaFechadaPeloAdmin (sonda ex)" "length novosPedidos \<le> k"
  shows "sonda (executar amb
           (Temporizador # RespostaConsulta (length (em_voo ex)) (Dados novosPedidos)
              # replicate k (FimDespacho (length (em_voo ex)))) ex)
         = estado (verificarNovosPedidos amb (mesma_consulta novosPedidos) (sonda ex))"
    and "chamados (registro (executar amb
           (Temporizador # RespostaConsulta (length (em_voo ex)) (Dados novosPedidos)
              # replicate k (FimDespacho (length (em_voo ex)))) ex))
         = chamados (registro ex)
           @ map fst (despachos (verificarNovosPedidos amb (mesma_consulta novosPedidos) (sonda ex)))"
proof -
  let ?n = "length (em_voo ex)"
  let ?ex = "ex\<lparr>em_voo := em_voo ex @ [AguardaConsulta (ultimoPedidoProcessado (sonda ex))],
               registro := registro ex @ [Recebe ?n novosPedidos]\<rparr>"
  have dois: "passo amb (RespostaConsulta ?n (Dados novosPedidos)) (passo amb Temporizador ex)
      = retomar ?n novosPedidos ?ex"
    using assms(1) by (simp add: passo_def)
  have n: "?n < length (em_voo ?ex)" by simp
  note r = retomar_sozinho[OF n assms(2), of amb]
  have v: "verificarNovosPedidos amb (mesma_consulta novosPedidos) (sonda ex)
      = processarLote amb novosPedidos (novo_tique (sonda ex))"
    using assms(1) by (simp add: verificarNovosPedidos_def mesma_consulta_def novo_tique_def)
  show "sonda (executar amb
           (Temporizador # RespostaConsulta (length (em_voo ex)) (Dados novosPedidos)
              # replicate k (FimDespacho (length (em_voo ex)))) ex)
         = estado (verificarNovosPedidos amb (mesma_consulta novosPedidos) (sonda ex))"
    using r dois v by simp
  show "chamados (registro (executar amb
           (Temporizador # RespostaConsulta (length (em_voo ex)) (Dados novosPedidos)
              # replicate k (FimDespacho (length (em_voo ex)))) ex))
         = chamados (registro ex)
           @ map fst (despachos (verificarNovosPedidos amb (mesma_consulta novosPedidos) (sonda ex)))"
    using r dois v by (simp add: chamados_append)
qed

end
